theory Spec2Isabelle
  imports Main "HOL-Library.Word"
begin

section \<open>SaveConverter.py: the conversion orchestration of PalEdit\<close>

text \<open>
  The theory embeds \<^verbatim>\<open>src/SaveConverter.py\<close>: the command line entry point
  \<^verbatim>\<open>main\<close>, the two conversion pipelines \<^verbatim>\<open>convert_sav_to_json\<close> and
  \<^verbatim>\<open>convert_json_to_sav\<close>, \<^verbatim>\<open>convert_obj_to_sav\<close> and the interactive
  \<^verbatim>\<open>confirm_prompt\<close>.

  Python values are modelled as follows. A \<^verbatim>\<open>str\<close> is a \<open>string\<close>, a \<^verbatim>\<open>bytes\<close>
  object is a list of 8-bit words, the integer \<^verbatim>\<open>save_type\<close> is an \<open>int\<close>.
  The process state is a record of the file system (a map from paths to nodes), the
  lines still waiting on standard input, and the trace of what the process did so far.
  A function of the script returns a pair: either the way the process stopped
  (\<^verbatim>\<open>exit(n)\<close> or an uncaught exception) or the value returned, and the state reached.

  The model starts from the arguments that \<^verbatim>\<open>argparse\<close> has accepted. Standard
  input is the finite list of the lines that can still be read, and \<^verbatim>\<open>input\<close> raises
  \<^verbatim>\<open>EOFError\<close> at its end. The paths of the file system are flat names; permissions
  and missing parent directories are not modelled. The functions imported from
  \<^verbatim>\<open>lib\<close> are parameters.
\<close>

subsection \<open>Strings\<close>

text \<open>\<^verbatim>\<open>s.startswith(p)\<close>.\<close>

fun startswith :: "string \<Rightarrow> string \<Rightarrow> bool" where
  "startswith s [] = True"
| "startswith [] (p # ps) = False"
| "startswith (c # cs) (p # ps) = (c = p \<and> startswith cs ps)"

text \<open>\<^verbatim>\<open>s.endswith(p)\<close>.\<close>

definition endswith :: "string \<Rightarrow> string \<Rightarrow> bool" where
  "endswith s p = startswith (rev s) (rev p)"

text \<open>\<^verbatim>\<open>p in s\<close> on two strings: \<open>p\<close> occurs in \<open>s\<close> as a contiguous substring.\<close>

fun str_in :: "string \<Rightarrow> string \<Rightarrow> bool" where
  "str_in p [] = (p = [])"
| "str_in p (c # cs) = (startswith (c # cs) p \<or> str_in p cs)"

text \<open>
  \<^verbatim>\<open>s.replace(old, new)\<close> without a count: every occurrence of \<open>old\<close> is replaced,
  scanning from the left, and the scan goes on after the replaced occurrence (the text
  put in is not scanned again). With an empty \<open>old\<close> Python puts \<open>new\<close> before every
  character and at the end.
\<close>

function str_replace :: "string \<Rightarrow> string \<Rightarrow> string \<Rightarrow> string" where
  "str_replace old new s =
     (if old = [] then new @ concat (map (\<lambda>c. c # new) s)
      else if startswith s old then new @ str_replace old new (drop (length old) s)
      else (case s of [] \<Rightarrow> [] | c # cs \<Rightarrow> c # str_replace old new cs))"
  by pat_completeness auto
termination
proof (relation "measure (\<lambda>(old, new, s). length s)")
  show "wf (measure (\<lambda>(old, new, s). length s))"
    by simp
next
  fix old new s :: string
  assume "old \<noteq> []" and "startswith s old"
  then have "s \<noteq> []"
    by (cases old; cases s) simp_all
  with \<open>old \<noteq> []\<close> show "((old, new, drop (length old) s), (old, new, s))
      \<in> measure (\<lambda>(old, new, s). length s)"
    by (cases s) simp_all
next
  fix old new s :: string and c cs
  assume "s = c # cs"
  then show "((old, new, cs), (old, new, s)) \<in> measure (\<lambda>(old, new, s). length s)"
    by simp
qed

declare str_replace.simps [simp del]

text \<open>
  \<^verbatim>\<open>str.casefold\<close>. The script compares the folded reply with \<^verbatim>\<open>"y"\<close> and
  \<^verbatim>\<open>"n"\<close> only; the characters that fold to these two letters are the ASCII letters
  themselves and their capitals, so the folding of the ASCII capitals is what is
  modelled, every other character being kept.
\<close>

definition casefold_char :: "char \<Rightarrow> char" where
  "casefold_char c =
     (case map_of (zip ''ABCDEFGHIJKLMNOPQRSTUVWXYZ'' ''abcdefghijklmnopqrstuvwxyz'') c of
        None \<Rightarrow> c
      | Some l \<Rightarrow> l)"

definition casefold :: "string \<Rightarrow> string" where
  "casefold s = map casefold_char s"

subsection \<open>The save variant (lines 86--92 and 132--138)\<close>

text \<open>
  Both \<^verbatim>\<open>convert_obj_to_sav\<close> and \<^verbatim>\<open>convert_json_to_sav\<close> choose the
  \<^verbatim>\<open>save_type\<close> handed to the compressor with the same test on the class name of
  the header of the document.
\<close>

definition save_type :: "string \<Rightarrow> int" where
  "save_type save_game_class_name =
     (if str_in ''Pal.PalWorldSaveGame'' save_game_class_name
         \<or> str_in ''Pal.PalLocalWorldSaveGame'' save_game_class_name
      then 0x32 else 0x31)"

text \<open>
  The two tags of the specification, with the discriminator byte of each. The script
  has no such type: it computes the byte directly.
\<close>

datatype variant_tag = Standard | WorldOrLocal

fun discriminator :: "variant_tag \<Rightarrow> int" where
  "discriminator Standard = 0x31"
| "discriminator WorldOrLocal = 0x32"

definition classify :: "string \<Rightarrow> variant_tag" where
  "classify save_game_class_name =
     (if save_type save_game_class_name = 0x32 then WorldOrLocal else Standard)"

subsection \<open>The process state\<close>

type_synonym bytes = "8 word list"

text \<open>A path of the file system names a regular file with its contents, or a directory.\<close>

datatype node = File bytes | Dir

text \<open>
  The exceptions the script can meet: the ones raised by \<^verbatim>\<open>open\<close> and \<^verbatim>\<open>input\<close>,
  and whatever a function of \<^verbatim>\<open>lib\<close> raises.
\<close>

datatype exn = FileNotFoundError string | IsADirectoryError string | EOFError | LibError string

text \<open>The process stops by \<^verbatim>\<open>exit(n)\<close> or by an exception nobody catches.\<close>

datatype stop = Exit nat | Raised exn

text \<open>
  The trace records, in order, the lines printed, the prompts shown by \<^verbatim>\<open>input\<close>,
  the files read, the files opened for writing and the files written completely, the
  calls of the conversion functions with their arguments, and the calls of the
  compressor with the payload and the \<^verbatim>\<open>save_type\<close> it is given.
\<close>

datatype event =
    Print string
  | Prompt string
  | ReadFile string
  | OpenWrite string
  | Wrote string bytes
  | CallSavToJson string string bool bool
  | CallJsonToSav string string bool
  | CallObjToSav string bool
  | CallCompress bytes int

record world =
  fs :: "string \<rightharpoonup> node"
  stdin :: "string list"
  events :: "event list"

definition emit :: "event \<Rightarrow> world \<Rightarrow> world" where
  "emit e w = w\<lparr>events := events w @ [e]\<rparr>"

text \<open>
  The exit status of the process: 0 when \<^verbatim>\<open>main\<close> returns, the argument of
  \<^verbatim>\<open>exit\<close>, and 1 when the interpreter ends on an uncaught exception.
\<close>

fun exit_code :: "stop + 'a \<Rightarrow> nat" where
  "exit_code (Inr v) = 0"
| "exit_code (Inl (Exit n)) = n"
| "exit_code (Inl (Raised e)) = 1"

text \<open>\<^verbatim>\<open>os.path.exists\<close> and \<^verbatim>\<open>os.path.isfile\<close>.\<close>

definition path_exists :: "world \<Rightarrow> string \<Rightarrow> bool" where
  "path_exists w path = (fs w path \<noteq> None)"

definition path_isfile :: "world \<Rightarrow> string \<Rightarrow> bool" where
  "path_isfile w path = (case fs w path of Some (File data) \<Rightarrow> True | _ \<Rightarrow> False)"

text \<open>\<^verbatim>\<open>with open(path, "rb") as f: data = f.read()\<close>, and the same in text mode.\<close>

definition read_file :: "string \<Rightarrow> world \<Rightarrow> (exn + bytes) \<times> world" where
  "read_file path w =
     (case fs w path of
        None \<Rightarrow> (Inl (FileNotFoundError path), w)
      | Some Dir \<Rightarrow> (Inl (IsADirectoryError path), w)
      | Some (File data) \<Rightarrow> (Inr data, emit (ReadFile path) w))"

text \<open>
  \<^verbatim>\<open>open(path, "w")\<close> and \<^verbatim>\<open>open(path, "wb")\<close>: the file is created, or emptied when
  it exists; a directory and the empty path cannot be opened.
\<close>

definition open_write :: "string \<Rightarrow> world \<Rightarrow> (exn + unit) \<times> world" where
  "open_write path w =
     (if path = [] then (Inl (FileNotFoundError path), w)
      else (case fs w path of
              Some Dir \<Rightarrow> (Inl (IsADirectoryError path), w)
            | _ \<Rightarrow> (Inr (), emit (OpenWrite path) (w\<lparr>fs := (fs w)(path \<mapsto> File [])\<rparr>))))"

text \<open>\<^verbatim>\<open>with open(path, "wb") as f: f.write(data)\<close>.\<close>

definition write_file :: "string \<Rightarrow> bytes \<Rightarrow> world \<Rightarrow> (exn + unit) \<times> world" where
  "write_file path data w =
     (case open_write path w of
        (Inl e, w1) \<Rightarrow> (Inl e, w1)
      | (Inr u, w1) \<Rightarrow> (Inr (), emit (Wrote path data) (w1\<lparr>fs := (fs w1)(path \<mapsto> File data)\<rparr>)))"

subsection \<open>The functions of \<^verbatim>\<open>lib\<close>\<close>

text \<open>
  The modules under \<^verbatim>\<open>lib\<close> are not part of the script. Every function the script
  calls from them is a parameter of the model:
  \<^verbatim>\<open>decompress_sav_to_gvas(data)\<close>,
  \<^verbatim>\<open>GvasFile.read(raw, PALWORLD_TYPE_HINTS, PALWORLD_CUSTOM_PROPERTIES)\<close>,
  \<^verbatim>\<open>gvas_file.dump()\<close>,
  \<^verbatim>\<open>json.dump(tree, f, indent=indent, cls=CustomEncoder)\<close> on a file opened as UTF-8 text
  (the bytes that reach the file, and the exception that ended the writing, if any),
  \<^verbatim>\<open>json.load(f)\<close> on a file opened as UTF-8 text,
  \<^verbatim>\<open>GvasFile.load(tree)\<close>,
  \<^verbatim>\<open>gvas_file.header.save_game_class_name\<close>,
  \<^verbatim>\<open>gvas_file.write(PALWORLD_CUSTOM_PROPERTIES)\<close> and
  \<^verbatim>\<open>compress_gvas_to_sav(payload, save_type)\<close>.
  Each of them may raise.
\<close>

record ('tree, 'doc) lib =
  decompress_sav_to_gvas :: "bytes \<Rightarrow> exn + bytes \<times> int"
  gvas_read :: "bytes \<Rightarrow> exn + 'doc"
  gvas_dump :: "'doc \<Rightarrow> exn + 'tree"
  json_dump :: "'tree \<Rightarrow> string option \<Rightarrow> bytes \<times> exn option"
  json_load :: "bytes \<Rightarrow> exn + 'tree"
  gvas_load :: "'tree \<Rightarrow> exn + 'doc"
  save_game_class_name :: "'doc \<Rightarrow> string"
  gvas_write :: "'doc \<Rightarrow> exn + bytes"
  compress_gvas_to_sav :: "bytes \<Rightarrow> int \<Rightarrow> exn + bytes"

subsection \<open>\<^verbatim>\<open>confirm_prompt\<close> (lines 147--151)\<close>

text \<open>
  The loop of \<^verbatim>\<open>confirm_prompt\<close>, on the reply held so far (\<^verbatim>\<open>None\<close> at first), the
  lines waiting on standard input and the trace. \<^verbatim>\<open>input\<close> shows the prompt and takes
  the next line; at the end of the input it raises \<^verbatim>\<open>EOFError\<close>.
\<close>

fun confirm_loop ::
  "string \<Rightarrow> string option \<Rightarrow> string list \<Rightarrow> event list
    \<Rightarrow> (exn + bool) \<times> string list \<times> event list" where
  "confirm_loop question reply [] tr =
     (if reply = Some ''y'' \<or> reply = Some ''n'' then (Inr (reply = Some ''y''), [], tr)
      else (Inl EOFError, [], tr @ [Prompt (question @ '' (y/n): '')]))"
| "confirm_loop question reply (l # ls) tr =
     (if reply = Some ''y'' \<or> reply = Some ''n'' then (Inr (reply = Some ''y''), l # ls, tr)
      else confirm_loop question (Some (casefold l)) ls
             (tr @ [Prompt (question @ '' (y/n): '')]))"

definition confirm_prompt :: "string \<Rightarrow> world \<Rightarrow> (exn + bool) \<times> world" where
  "confirm_prompt question w =
     (case confirm_loop question None (stdin w) (events w) of
        (r, inp, tr) \<Rightarrow> (r, w\<lparr>stdin := inp, events := tr\<rparr>))"

subsection \<open>The check before overwriting (lines 79--83, 103--107 and 122--126)\<close>

text \<open>The three conversion functions start with the same block.\<close>

definition overwrite_guard :: "string \<Rightarrow> bool \<Rightarrow> world \<Rightarrow> (stop + unit) \<times> world" where
  "overwrite_guard output_path force w =
     (if path_exists w output_path then
        (let w1 = emit (Print (output_path @ '' already exists, this will overwrite the file'')) w
         in if \<not> force then
              (case confirm_prompt ''Are you sure you want to continue?'' w1 of
                 (Inl e, w2) \<Rightarrow> (Inl (Raised e), w2)
               | (Inr ok, w2) \<Rightarrow> if \<not> ok then (Inl (Exit 1), w2) else (Inr (), w2))
            else (Inr (), w1))
      else (Inr (), w))"

subsection \<open>\<^verbatim>\<open>convert_sav_to_json\<close> (lines 101--117)\<close>

text \<open>Lines 108--117, after the check before overwriting.\<close>

definition sav_to_json_steps ::
  "('tree, 'doc) lib \<Rightarrow> string \<Rightarrow> string \<Rightarrow> bool \<Rightarrow> world \<Rightarrow> (stop + unit) \<times> world" where
  "sav_to_json_steps c filename output_path minify w =
     (let w1 = emit (Print ''Decompressing sav file'') w in
      case read_file filename w1 of
        (Inl e, w2) \<Rightarrow> (Inl (Raised e), w2)
      | (Inr data, w2) \<Rightarrow>
      (case decompress_sav_to_gvas c data of
        Inl e \<Rightarrow> (Inl (Raised e), w2)
      | Inr (raw_gvas, uu) \<Rightarrow>
      (let w3 = emit (Print ''Loading GVAS file'') w2 in
       case gvas_read c raw_gvas of
        Inl e \<Rightarrow> (Inl (Raised e), w3)
      | Inr gvas_file \<Rightarrow>
      (let w4 = emit (Print (''Writing JSON to '' @ output_path)) w3 in
       case open_write output_path w4 of
        (Inl e, w5) \<Rightarrow> (Inl (Raised e), w5)
      | (Inr u, w5) \<Rightarrow>
      (let indent = (if minify then None else Some [CHR 0x09]) in
       case gvas_dump c gvas_file of
        Inl e \<Rightarrow> (Inl (Raised e), w5)
      | Inr tree \<Rightarrow>
      (case json_dump c tree indent of
        (written, err) \<Rightarrow>
          (let w6 = w5\<lparr>fs := (fs w5)(output_path \<mapsto> File written)\<rparr> in
           case err of
             Some e \<Rightarrow> (Inl (Raised e), w6)
           | None \<Rightarrow> (Inr (), emit (Wrote output_path written) w6))))))))"

definition convert_sav_to_json ::
  "('tree, 'doc) lib \<Rightarrow> string \<Rightarrow> string \<Rightarrow> bool \<Rightarrow> bool \<Rightarrow> world
    \<Rightarrow> (stop + unit) \<times> world" where
  "convert_sav_to_json c filename output_path force minify w =
     (let w0 = emit (CallSavToJson filename output_path force minify) w;
          w1 = emit (Print (''Converting '' @ filename @ '' to JSON, saving to '' @ output_path)) w0
      in case overwrite_guard output_path force w1 of
           (Inl s, w2) \<Rightarrow> (Inl s, w2)
         | (Inr u, w2) \<Rightarrow> sav_to_json_steps c filename output_path minify w2)"

subsection \<open>\<^verbatim>\<open>convert_obj_to_sav\<close> (lines 78--98) and \<^verbatim>\<open>convert_json_to_sav\<close> (lines 120--144)\<close>

text \<open>
  Lines 84--98, which are lines 130--144 again: the document is rebuilt, the
  \<^verbatim>\<open>save_type\<close> is chosen, the document is serialised and compressed, and the result is
  written.
\<close>

definition obj_to_sav_steps ::
  "('tree, 'doc) lib \<Rightarrow> 'tree \<Rightarrow> string \<Rightarrow> world \<Rightarrow> (stop + unit) \<times> world" where
  "obj_to_sav_steps c obj output_path w =
     (case gvas_load c obj of
        Inl e \<Rightarrow> (Inl (Raised e), w)
      | Inr gvas_file \<Rightarrow>
      (let w1 = emit (Print ''Compressing SAV file'') w;
           st = save_type (save_game_class_name c gvas_file) in
       case gvas_write c gvas_file of
        Inl e \<Rightarrow> (Inl (Raised e), w1)
      | Inr payload \<Rightarrow>
      (let w2 = emit (CallCompress payload st) w1 in
       case compress_gvas_to_sav c payload st of
        Inl e \<Rightarrow> (Inl (Raised e), w2)
      | Inr sav_file \<Rightarrow>
      (let w3 = emit (Print (''Writing SAV file to '' @ output_path)) w2 in
       case write_file output_path sav_file w3 of
        (Inl e, w4) \<Rightarrow> (Inl (Raised e), w4)
      | (Inr u, w4) \<Rightarrow> (Inr (), w4)))))"

definition convert_obj_to_sav ::
  "('tree, 'doc) lib \<Rightarrow> 'tree \<Rightarrow> string \<Rightarrow> bool \<Rightarrow> world \<Rightarrow> (stop + unit) \<times> world" where
  "convert_obj_to_sav c obj output_path force w =
     (let w0 = emit (CallObjToSav output_path force) w
      in case overwrite_guard output_path force w0 of
           (Inl s, w1) \<Rightarrow> (Inl s, w1)
         | (Inr u, w1) \<Rightarrow> obj_to_sav_steps c obj output_path w1)"

text \<open>Lines 127--144, after the check before overwriting.\<close>

definition json_to_sav_steps ::
  "('tree, 'doc) lib \<Rightarrow> string \<Rightarrow> string \<Rightarrow> world \<Rightarrow> (stop + unit) \<times> world" where
  "json_to_sav_steps c filename output_path w =
     (let w1 = emit (Print (''Loading JSON from '' @ filename)) w in
      case read_file filename w1 of
        (Inl e, w2) \<Rightarrow> (Inl (Raised e), w2)
      | (Inr text, w2) \<Rightarrow>
      (case json_load c text of
        Inl e \<Rightarrow> (Inl (Raised e), w2)
      | Inr data \<Rightarrow> obj_to_sav_steps c data output_path w2))"

definition convert_json_to_sav ::
  "('tree, 'doc) lib \<Rightarrow> string \<Rightarrow> string \<Rightarrow> bool \<Rightarrow> world \<Rightarrow> (stop + unit) \<times> world" where
  "convert_json_to_sav c filename output_path force w =
     (let w0 = emit (CallJsonToSav filename output_path force) w;
          w1 = emit (Print (''Converting '' @ filename @ '' to SAV, saving to '' @ output_path)) w0
      in case overwrite_guard output_path force w1 of
           (Inl s, w2) \<Rightarrow> (Inl s, w2)
         | (Inr u, w2) \<Rightarrow> json_to_sav_steps c filename output_path w2)"

subsection \<open>\<^verbatim>\<open>main\<close> (lines 13--66)\<close>

text \<open>
  The arguments as \<^verbatim>\<open>argparse\<close> returns them. The field \<open>output_opt\<close> is
  \<^verbatim>\<open>args.output\<close>, which is \<^verbatim>\<open>None\<close> when the option is absent.
\<close>

record args =
  filename :: string
  to_json :: bool
  from_json :: bool
  output_opt :: "string option"
  force :: bool
  minify_json :: bool

text \<open>
  The output path of lines 55--58 and the one of lines 62--65.
  \<^verbatim>\<open>not args.output\<close> is true of \<^verbatim>\<open>None\<close> and of the empty string.
\<close>

definition json_output_path :: "args \<Rightarrow> string" where
  "json_output_path a =
     (case output_opt a of
        None \<Rightarrow> filename a @ ''.json''
      | Some out \<Rightarrow> if out = [] then filename a @ ''.json'' else out)"

definition sav_output_path :: "args \<Rightarrow> string" where
  "sav_output_path a =
     (case output_opt a of
        None \<Rightarrow> str_replace ''.json'' [] (filename a)
      | Some out \<Rightarrow> if out = [] then str_replace ''.json'' [] (filename a) else out)"

text \<open>Lines 54--59.\<close>

definition main_to_json ::
  "('tree, 'doc) lib \<Rightarrow> args \<Rightarrow> world \<Rightarrow> (stop + unit) \<times> world" where
  "main_to_json c a w =
     (if to_json a \<or> endswith (filename a) ''.sav''
      then convert_sav_to_json c (filename a) (json_output_path a) (force a) (minify_json a) w
      else (Inr (), w))"

text \<open>Lines 61--66.\<close>

definition main_from_json ::
  "('tree, 'doc) lib \<Rightarrow> args \<Rightarrow> world \<Rightarrow> (stop + unit) \<times> world" where
  "main_from_json c a w =
     (if from_json a \<or> endswith (filename a) ''.json''
      then convert_json_to_sav c (filename a) (sav_output_path a) (force a) w
      else (Inr (), w))"

definition main :: "('tree, 'doc) lib \<Rightarrow> args \<Rightarrow> world \<Rightarrow> (stop + unit) \<times> world" where
  "main c a w =
     (if to_json a \<and> from_json a
      then (Inl (Exit 1), emit (Print ''Cannot specify both --to-json and --from-json'') w)
      else if \<not> path_exists w (filename a)
      then (Inl (Exit 1), emit (Print (filename a @ '' does not exist'')) w)
      else if \<not> path_isfile w (filename a)
      then (Inl (Exit 1), emit (Print (filename a @ '' is not a file'')) w)
      else (case main_to_json c a w of
              (Inl s, w1) \<Rightarrow> (Inl s, w1)
            | (Inr u, w1) \<Rightarrow> main_from_json c a w1))"

subsection \<open>Reading a trace\<close>

text \<open>The calls of the two pipelines in a trace, in order.\<close>

fun is_pipeline_call :: "event \<Rightarrow> bool" where
  "is_pipeline_call (CallSavToJson f out frc m) = True"
| "is_pipeline_call (CallJsonToSav f out frc) = True"
| "is_pipeline_call e = False"

definition pipeline_calls :: "event list \<Rightarrow> event list" where
  "pipeline_calls tr = filter is_pipeline_call tr"

fun is_prompt :: "event \<Rightarrow> bool" where
  "is_prompt (Prompt q) = True"
| "is_prompt e = False"

definition prompts :: "event list \<Rightarrow> event list" where
  "prompts tr = filter is_prompt tr"

text \<open>The events of the file system: reading, opening for writing, writing.\<close>

fun is_file_event :: "event \<Rightarrow> bool" where
  "is_file_event (ReadFile p) = True"
| "is_file_event (OpenWrite p) = True"
| "is_file_event (Wrote p d) = True"
| "is_file_event e = False"

definition file_events :: "event list \<Rightarrow> event list" where
  "file_events tr = filter is_file_event tr"

text \<open>The \<^verbatim>\<open>save_type\<close> of every call of the compressor in a trace.\<close>

fun compress_save_types :: "event list \<Rightarrow> int list" where
  "compress_save_types [] = []"
| "compress_save_types (CallCompress payload st # tr) = st # compress_save_types tr"
| "compress_save_types (e # tr) = compress_save_types tr"

subsection \<open>Failing steps\<close>

text \<open>
  The functions of \<^verbatim>\<open>lib\<close> that \<^verbatim>\<open>convert_sav_to_json\<close> calls before it opens
  the output file: decompression, then parsing. \<open>decoding_fails\<close> holds of the bytes
  of a save file when one of the two raises.
\<close>

definition decoding_fails :: "('tree, 'doc) lib \<Rightarrow> bytes \<Rightarrow> bool" where
  "decoding_fails c data =
     (case decompress_sav_to_gvas c data of
        Inl e \<Rightarrow> True
      | Inr (raw_gvas, uu) \<Rightarrow> (case gvas_read c raw_gvas of Inl e \<Rightarrow> True | Inr d \<Rightarrow> False))"

text \<open>
  The functions of \<^verbatim>\<open>lib\<close> that \<^verbatim>\<open>convert_obj_to_sav\<close> and
  \<^verbatim>\<open>convert_json_to_sav\<close> call on the tree: rebuilding the document, serialising it,
  compressing the payload. \<open>rebuilding_fails\<close> holds of a tree when one of the three
  raises, and \<open>encoding_fails\<close> of a text when parsing it raises or when rebuilding
  fails on its tree.
\<close>

definition rebuilding_fails :: "('tree, 'doc) lib \<Rightarrow> 'tree \<Rightarrow> bool" where
  "rebuilding_fails c obj =
     (case gvas_load c obj of
        Inl e \<Rightarrow> True
      | Inr gvas_file \<Rightarrow>
          (case gvas_write c gvas_file of
             Inl e \<Rightarrow> True
           | Inr payload \<Rightarrow>
               (case compress_gvas_to_sav c payload
                       (save_type (save_game_class_name c gvas_file)) of
                  Inl e \<Rightarrow> True
                | Inr sav_file \<Rightarrow> False)))"

definition encoding_fails :: "('tree, 'doc) lib \<Rightarrow> bytes \<Rightarrow> bool" where
  "encoding_fails c text =
     (case json_load c text of Inl e \<Rightarrow> True | Inr obj \<Rightarrow> rebuilding_fails c obj)"

subsection \<open>What a run is expected to leave\<close>

text \<open>
  The state in which the check before overwriting leaves the process when it has
  printed its warning and shown the prompt \<open>k\<close> times, the lines \<open>rest\<close> being
  left on the input.
\<close>

definition asked :: "string \<Rightarrow> nat \<Rightarrow> string list \<Rightarrow> world \<Rightarrow> world" where
  "asked output_path k rest w =
     w\<lparr>stdin := rest,
       events := events w
         @ Print (output_path @ '' already exists, this will overwrite the file'')
         # replicate k (Prompt ''Are you sure you want to continue? (y/n): '')\<rparr>"

text \<open>
  The text that the functions of \<^verbatim>\<open>lib\<close> make of the bytes of a save file, when
  none of them raises, and the bytes of the save file that they make of a text.
\<close>

definition json_text :: "('tree, 'doc) lib \<Rightarrow> bytes \<Rightarrow> bool \<Rightarrow> bytes option" where
  "json_text c data minify =
     (case decompress_sav_to_gvas c data of
        Inl e \<Rightarrow> None
      | Inr (raw_gvas, uu) \<Rightarrow>
     (case gvas_read c raw_gvas of
        Inl e \<Rightarrow> None
      | Inr gvas_file \<Rightarrow>
     (case gvas_dump c gvas_file of
        Inl e \<Rightarrow> None
      | Inr tree \<Rightarrow>
     (case json_dump c tree (if minify then None else Some [CHR 0x09]) of
        (written, Some e) \<Rightarrow> None
      | (written, None) \<Rightarrow> Some written))))"

definition sav_bytes_of_obj :: "('tree, 'doc) lib \<Rightarrow> 'tree \<Rightarrow> bytes option" where
  "sav_bytes_of_obj c obj =
     (case gvas_load c obj of
        Inl e \<Rightarrow> None
      | Inr gvas_file \<Rightarrow>
     (case gvas_write c gvas_file of
        Inl e \<Rightarrow> None
      | Inr payload \<Rightarrow>
     (case compress_gvas_to_sav c payload (save_type (save_game_class_name c gvas_file)) of
        Inl e \<Rightarrow> None
      | Inr sav_file \<Rightarrow> Some sav_file)))"

definition sav_bytes :: "('tree, 'doc) lib \<Rightarrow> bytes \<Rightarrow> bytes option" where
  "sav_bytes c text =
     (case json_load c text of Inl e \<Rightarrow> None | Inr obj \<Rightarrow> sav_bytes_of_obj c obj)"

text \<open>
  The discriminators that the compressor is expected to receive when a tree is
  converted: none when the document cannot be rebuilt or serialised, else the one of
  the variant of the rebuilt document.
\<close>

definition expected_save_types :: "('tree, 'doc) lib \<Rightarrow> 'tree \<Rightarrow> int list" where
  "expected_save_types c obj =
     (case gvas_load c obj of
        Inl e \<Rightarrow> []
      | Inr gvas_file \<Rightarrow>
          (case gvas_write c gvas_file of
             Inl e \<Rightarrow> []
           | Inr payload \<Rightarrow> [discriminator (classify (save_game_class_name c gvas_file))]))"

subsection \<open>A small instance of \<^verbatim>\<open>lib\<close>, to run the model\<close>

text \<open>
  A container is its \<^verbatim>\<open>save_type\<close> byte followed by the payload; the document, the
  tree and the text are the payload itself; a document whose payload starts with the
  byte 0x57 has the class name of a world save. The empty container, the payload
  \<open>[0xFF]\<close> and the empty text are refused.
\<close>

definition toy_lib :: "(bytes, bytes) lib" where
  "toy_lib =
     \<lparr>decompress_sav_to_gvas =
        (\<lambda>data. case data of [] \<Rightarrow> Inl (LibError ''not a save'') | t # raw \<Rightarrow> Inr (raw, uint t)),
      gvas_read = (\<lambda>raw. if raw = [0xFF] then Inl (LibError ''unknown property'') else Inr raw),
      gvas_dump = Inr,
      json_dump = (\<lambda>tree indent. (case indent of None \<Rightarrow> tree | Some i \<Rightarrow> 0x09 # tree, None)),
      json_load =
        (\<lambda>text. case text of
                  [] \<Rightarrow> Inl (LibError ''no JSON'')
                | b # bs \<Rightarrow> Inr (if b = 0x09 then bs else b # bs)),
      gvas_load = (\<lambda>tree. if tree = [0xFF] then Inl (LibError ''no header'') else Inr tree),
      save_game_class_name =
        (\<lambda>doc. if take 1 doc = [0x57] then ''/Script/Pal.PalWorldSaveGame''
                else ''/Script/Pal.PalWorldPlayerSaveGame''),
      gvas_write = Inr,
      compress_gvas_to_sav = (\<lambda>payload st. Inr (word_of_int st # payload))\<rparr>"

text \<open>The same instance, with a \<^verbatim>\<open>gvas_file.dump()\<close> that raises.\<close>

definition toy_lib_dump_raises :: "(bytes, bytes) lib" where
  "toy_lib_dump_raises = toy_lib\<lparr>gvas_dump := (\<lambda>doc. Inl (LibError ''cannot serialise''))\<rparr>"

definition world0 :: "(string \<times> node) list \<Rightarrow> string list \<Rightarrow> world" where
  "world0 files inp = \<lparr>fs = map_of files, stdin = inp, events = []\<rparr>"

section \<open>Properties\<close>

subsection \<open>Strings\<close>

lemma startswith_iff: "startswith s p \<longleftrightarrow> (\<exists>t. s = p @ t)"
  by (induction s p rule: startswith.induct) auto

lemma endswith_iff: "endswith s p \<longleftrightarrow> (\<exists>t. s = t @ p)"
proof
  assume "endswith s p"
  then obtain t where "rev s = rev p @ t"
    unfolding endswith_def startswith_iff by blast
  then have "s = rev t @ p"
    by (metis rev_append rev_rev_ident)
  then show "\<exists>t. s = t @ p" ..
next
  assume "\<exists>t. s = t @ p"
  then show "endswith s p"
    unfolding endswith_def startswith_iff by auto
qed

lemma str_in_iff: "str_in p s \<longleftrightarrow> (\<exists>a b. s = a @ p @ b)"
proof (induction s)
  case Nil
  then show ?case by auto
next
  case (Cons c cs)
  show ?case
  proof
    assume "str_in p (c # cs)"
    then consider "startswith (c # cs) p" | "str_in p cs"
      by auto
    then show "\<exists>a b. c # cs = a @ p @ b"
    proof cases
      case 1
      then obtain t where "c # cs = p @ t"
        unfolding startswith_iff ..
      then have "c # cs = [] @ p @ t"
        by simp
      then show ?thesis by blast
    next
      case 2
      then obtain a b where "cs = a @ p @ b"
        using Cons.IH by blast
      then have "c # cs = (c # a) @ p @ b"
        by simp
      then show ?thesis by blast
    qed
  next
    assume "\<exists>a b. c # cs = a @ p @ b"
    then obtain a b where ab: "c # cs = a @ p @ b"
      by blast
    show "str_in p (c # cs)"
    proof (cases a)
      case Nil
      with ab have "startswith (c # cs) p"
        unfolding startswith_iff by auto
      then show ?thesis by simp
    next
      case (Cons x a')
      with ab have "cs = a' @ p @ b"
        by simp
      then have "str_in p cs"
        using Cons.IH by blast
      then show ?thesis by simp
    qed
  qed
qed

subsection \<open>The save variant\<close>

text \<open>
  C7. The classification is a total function of the class name alone. It gives
  WorldOrLocal (the byte 0x32) exactly when the class name contains
  \<^verbatim>\<open>Pal.PalWorldSaveGame\<close> or \<^verbatim>\<open>Pal.PalLocalWorldSaveGame\<close> as a substring, and
  Standard (the byte 0x31) for every other class name; \<^verbatim>\<open>Pal.PalWorldSaveGame\<close> is
  WorldOrLocal and \<^verbatim>\<open>Other.Save\<close> is Standard.
\<close>

theorem classify_total:
  "(classify n = WorldOrLocal \<longleftrightarrow>
      (\<exists>a b. n = a @ ''Pal.PalWorldSaveGame'' @ b)
      \<or> (\<exists>a b. n = a @ ''Pal.PalLocalWorldSaveGame'' @ b))
   \<and> (classify n = Standard \<longleftrightarrow>
      \<not> ((\<exists>a b. n = a @ ''Pal.PalWorldSaveGame'' @ b)
         \<or> (\<exists>a b. n = a @ ''Pal.PalLocalWorldSaveGame'' @ b)))
   \<and> save_type n = discriminator (classify n)
   \<and> classify ''Pal.PalWorldSaveGame'' = WorldOrLocal
   \<and> classify ''Other.Save'' = Standard"
proof -
  have "classify ''Pal.PalWorldSaveGame'' = WorldOrLocal"
    by (simp add: classify_def save_type_def)
  moreover have "classify ''Other.Save'' = Standard"
    by (simp add: classify_def save_type_def)
  moreover have "save_type n = discriminator (classify n)"
    by (simp add: classify_def save_type_def)
  moreover have "classify n = WorldOrLocal \<longleftrightarrow>
      (\<exists>a b. n = a @ ''Pal.PalWorldSaveGame'' @ b)
      \<or> (\<exists>a b. n = a @ ''Pal.PalLocalWorldSaveGame'' @ b)"
    unfolding classify_def save_type_def str_in_iff [symmetric] by simp
  moreover have "classify n = Standard \<longleftrightarrow>
      \<not> ((\<exists>a b. n = a @ ''Pal.PalWorldSaveGame'' @ b)
         \<or> (\<exists>a b. n = a @ ''Pal.PalLocalWorldSaveGame'' @ b))"
    unfolding classify_def save_type_def str_in_iff [symmetric] by simp
  ultimately show ?thesis
    by blast
qed

theorem classify_total_witness:
  "classify ''/Script/Pal.PalLocalWorldSaveGame'' = WorldOrLocal
   \<and> save_type ''/Script/Pal.PalLocalWorldSaveGame'' = 0x32
   \<and> save_type ''/Script/Pal.PalWorldPlayerSaveGame'' = 0x31"
proof -
  have "''/Script/Pal.PalLocalWorldSaveGame'' = ''/Script/'' @ ''Pal.PalLocalWorldSaveGame'' @ []"
    by simp
  then have "classify ''/Script/Pal.PalLocalWorldSaveGame'' = WorldOrLocal"
    using classify_total [of "''/Script/Pal.PalLocalWorldSaveGame''"] by blast
  moreover have "save_type ''/Script/Pal.PalLocalWorldSaveGame'' = 0x32"
    by (simp add: save_type_def)
  moreover have "save_type ''/Script/Pal.PalWorldPlayerSaveGame'' = 0x31"
    by (simp add: save_type_def)
  ultimately show ?thesis by blast
qed

subsection \<open>The state, the prompt\<close>

lemma emit_simps [simp]:
  "fs (emit e w) = fs w" "stdin (emit e w) = stdin w" "events (emit e w) = events w @ [e]"
  by (simp_all add: emit_def)

lemma path_exists_emit [simp]: "path_exists (emit e w) p = path_exists w p"
  by (simp add: path_exists_def)

lemma path_isfile_emit [simp]: "path_isfile (emit e w) p = path_isfile w p"
  by (simp add: path_isfile_def)

lemma path_isfile_exists: "path_isfile w p \<Longrightarrow> path_exists w p"
  by (auto simp: path_isfile_def path_exists_def split: option.splits)

lemma compress_save_types_append:
  "compress_save_types (xs @ ys) = compress_save_types xs @ compress_save_types ys"
  by (induction xs rule: compress_save_types.induct) simp_all

lemma casefold_char_y: "casefold_char c = CHR ''y'' \<longleftrightarrow> c = CHR ''y'' \<or> c = CHR ''Y''"
  by (auto simp: casefold_char_def split: if_splits)

lemma casefold_char_n: "casefold_char c = CHR ''n'' \<longleftrightarrow> c = CHR ''n'' \<or> c = CHR ''N''"
  by (auto simp: casefold_char_def split: if_splits)

lemma casefold_y: "casefold l = ''y'' \<longleftrightarrow> l = ''y'' \<or> l = ''Y''"
  by (cases l) (auto simp: casefold_def casefold_char_y)

lemma casefold_n: "casefold l = ''n'' \<longleftrightarrow> l = ''n'' \<or> l = ''N''"
  by (cases l) (auto simp: casefold_def casefold_char_n)

lemma confirm_loop_answered:
  "reply = Some ''y'' \<or> reply = Some ''n'' \<Longrightarrow>
   confirm_loop q reply inp tr = (Inr (reply = Some ''y''), inp, tr)"
  by (cases inp) auto

lemma confirm_loop_retry:
  assumes "reply \<noteq> Some ''y''" and "reply \<noteq> Some ''n''"
    and "\<forall>b\<in>set bad. casefold b \<noteq> ''y'' \<and> casefold b \<noteq> ''n''"
    and "casefold r = ''y'' \<or> casefold r = ''n''"
  shows "confirm_loop q reply (bad @ r # rest) tr =
    (Inr (casefold r = ''y''), rest, tr @ replicate (Suc (length bad)) (Prompt (q @ '' (y/n): '')))"
  using assms
proof (induction bad arbitrary: reply tr)
  case Nil
  then show ?case
    by (auto simp: confirm_loop_answered)
next
  case (Cons b bad)
  have "confirm_loop q reply ((b # bad) @ r # rest) tr =
      confirm_loop q (Some (casefold b)) (bad @ r # rest) (tr @ [Prompt (q @ '' (y/n): '')])"
    using Cons.prems by simp
  also have "\<dots> = (Inr (casefold r = ''y''), rest,
      (tr @ [Prompt (q @ '' (y/n): '')]) @ replicate (Suc (length bad)) (Prompt (q @ '' (y/n): '')))"
    using Cons.prems by (intro Cons.IH) auto
  finally show ?case
    by simp
qed

lemma confirm_loop_eof:
  assumes "reply \<noteq> Some ''y''" and "reply \<noteq> Some ''n''"
    and "\<forall>b\<in>set inp. casefold b \<noteq> ''y'' \<and> casefold b \<noteq> ''n''"
  shows "confirm_loop q reply inp tr =
    (Inl EOFError, [], tr @ replicate (Suc (length inp)) (Prompt (q @ '' (y/n): '')))"
  using assms
proof (induction inp arbitrary: reply tr)
  case Nil
  then show ?case by simp
next
  case (Cons b inp)
  have "confirm_loop q reply (b # inp) tr =
      confirm_loop q (Some (casefold b)) inp (tr @ [Prompt (q @ '' (y/n): '')])"
    using Cons.prems by simp
  also have "\<dots> = (Inl EOFError, [],
      (tr @ [Prompt (q @ '' (y/n): '')]) @ replicate (Suc (length inp)) (Prompt (q @ '' (y/n): '')))"
    using Cons.prems by (intro Cons.IH) auto
  finally show ?case
    by simp
qed

lemma confirm_loop_trace:
  "\<exists>k. snd (snd (confirm_loop q reply inp tr)) = tr @ replicate k (Prompt (q @ '' (y/n): ''))"
proof (induction inp arbitrary: reply tr)
  case Nil
  show ?case
  proof (cases "reply = Some ''y'' \<or> reply = Some ''n''")
    case True
    then have "snd (snd (confirm_loop q reply [] tr)) = tr @ replicate 0 (Prompt (q @ '' (y/n): ''))"
      by auto
    then show ?thesis by blast
  next
    case False
    then have "snd (snd (confirm_loop q reply [] tr)) = tr @ replicate 1 (Prompt (q @ '' (y/n): ''))"
      by auto
    then show ?thesis by blast
  qed
next
  case (Cons l ls)
  show ?case
  proof (cases "reply = Some ''y'' \<or> reply = Some ''n''")
    case True
    then have "snd (snd (confirm_loop q reply (l # ls) tr)) = tr @ replicate 0 (Prompt (q @ '' (y/n): ''))"
      by auto
    then show ?thesis by blast
  next
    case False
    obtain k where "snd (snd (confirm_loop q (Some (casefold l)) ls (tr @ [Prompt (q @ '' (y/n): '')])))
        = (tr @ [Prompt (q @ '' (y/n): '')]) @ replicate k (Prompt (q @ '' (y/n): ''))"
      using Cons.IH by blast
    with False have "snd (snd (confirm_loop q reply (l # ls) tr)) =
        tr @ replicate (Suc k) (Prompt (q @ '' (y/n): ''))"
      by simp
    then show ?thesis by blast
  qed
qed

lemma confirm_prompt_fs [simp]: "fs (snd (confirm_prompt q w)) = fs w"
  by (simp add: confirm_prompt_def split: prod.splits)

lemma confirm_prompt_trace:
  "\<exists>k. events (snd (confirm_prompt q w)) = events w @ replicate k (Prompt (q @ '' (y/n): ''))"
  using confirm_loop_trace [of q None "stdin w" "events w"]
  by (auto simp: confirm_prompt_def split: prod.splits)

subsection \<open>The check before overwriting\<close>

lemma pipeline_calls_append [simp]:
  "pipeline_calls (xs @ ys) = pipeline_calls xs @ pipeline_calls ys"
  by (simp add: pipeline_calls_def)

lemma prompts_append [simp]: "prompts (xs @ ys) = prompts xs @ prompts ys"
  by (simp add: prompts_def)

lemma file_events_append [simp]: "file_events (xs @ ys) = file_events xs @ file_events ys"
  by (simp add: file_events_def)

lemma pipeline_calls_replicate_Prompt [simp]: "pipeline_calls (replicate k (Prompt q)) = []"
  by (simp add: pipeline_calls_def)

lemma file_events_replicate_Prompt [simp]: "file_events (replicate k (Prompt q)) = []"
  by (simp add: file_events_def)

lemma prompts_replicate_Prompt [simp]: "prompts (replicate k (Prompt q)) = replicate k (Prompt q)"
  by (simp add: prompts_def)

lemma compress_save_types_replicate_Prompt [simp]:
  "compress_save_types (replicate k (Prompt q)) = []"
  by (induction k) simp_all

lemma confirm_prompt_cases:
  obtains r w2 k where "confirm_prompt q w = (r, w2)" and "fs w2 = fs w"
    and "events w2 = events w @ replicate k (Prompt (q @ '' (y/n): ''))"
proof -
  obtain k where "events (snd (confirm_prompt q w)) = events w @ replicate k (Prompt (q @ '' (y/n): ''))"
    using confirm_prompt_trace by blast
  moreover have "fs (snd (confirm_prompt q w)) = fs w"
    by simp
  moreover have "confirm_prompt q w = (fst (confirm_prompt q w), snd (confirm_prompt q w))"
    by simp
  ultimately show thesis
    using that by blast
qed

text \<open>
  The check before overwriting, in its three cases: nothing at the path; something
  there and \<^verbatim>\<open>force\<close>; something there and the user is asked. It never touches the
  file system, and it stops the process only with status 1.
\<close>

lemma overwrite_guard_cases:
  obtains (absent) "\<not> path_exists w out" and "overwrite_guard out frc w = (Inr (), w)"
  | (forced) "path_exists w out" and "frc"
      and "overwrite_guard out frc w =
        (Inr (), emit (Print (out @ '' already exists, this will overwrite the file'')) w)"
  | (asked) r w2 k where "path_exists w out" and "\<not> frc"
      and "overwrite_guard out frc w = (r, w2)" and "fs w2 = fs w"
      and "events w2 = events w @ Print (out @ '' already exists, this will overwrite the file'')
            # replicate k (Prompt ''Are you sure you want to continue? (y/n): '')"
      and "r = Inr () \<or> exit_code r = 1"
proof (cases "path_exists w out")
  case False
  then show ?thesis
    using absent by (simp add: overwrite_guard_def)
next
  case True
  show ?thesis
  proof (cases frc)
    case True
    with \<open>path_exists w out\<close> show ?thesis
      using forced by (simp add: overwrite_guard_def)
  next
    case False
    let ?w1 = "emit (Print (out @ '' already exists, this will overwrite the file'')) w"
    obtain r w2 k where c: "confirm_prompt ''Are you sure you want to continue?'' ?w1 = (r, w2)"
      and f: "fs w2 = fs ?w1"
      and e: "events w2 = events ?w1 @ replicate k (Prompt (''Are you sure you want to continue?'' @ '' (y/n): ''))"
      by (rule confirm_prompt_cases)
    let ?r = "case r of Inl e \<Rightarrow> Inl (Raised e) | Inr ok \<Rightarrow> if ok then Inr () else Inl (Exit 1)"
    have "overwrite_guard out frc w = (?r, w2)"
      using True False c by (simp add: overwrite_guard_def split: sum.splits)
    moreover have "fs w2 = fs w"
      using f by simp
    moreover have "events w2 = events w @ Print (out @ '' already exists, this will overwrite the file'')
            # replicate k (Prompt ''Are you sure you want to continue? (y/n): '')"
      using e by simp
    moreover have "?r = Inr () \<or> exit_code ?r = 1"
      by (simp split: sum.splits)
    ultimately show ?thesis
      using asked True False by blast
  qed
qed

lemma overwrite_guard_fs [simp]: "fs (snd (overwrite_guard out frc w)) = fs w"
  by (cases out frc w rule: overwrite_guard_cases) simp_all

lemma overwrite_guard_stop: "fst (overwrite_guard out frc w) = Inl s \<Longrightarrow> exit_code (Inl s :: stop + unit) = 1"
  by (cases out frc w rule: overwrite_guard_cases) auto

lemma overwrite_guard_extends:
  "\<exists>new. events (snd (overwrite_guard out frc w)) = events w @ new
     \<and> pipeline_calls new = [] \<and> compress_save_types new = [] \<and> file_events new = []"
  by (cases out frc w rule: overwrite_guard_cases)
     (simp_all add: pipeline_calls_def file_events_def)

subsection \<open>The steps of the two pipelines\<close>

lemmas step_defs = sav_to_json_steps_def obj_to_sav_steps_def json_to_sav_steps_def
  read_file_def open_write_def write_file_def Let_def

lemmas step_splits = prod.splits sum.splits option.splits node.splits if_splits

lemma sav_to_json_steps_extends:
  "\<exists>new. events (snd (sav_to_json_steps c f out m w)) = events w @ new
     \<and> pipeline_calls new = [] \<and> prompts new = []"
  by (auto simp: step_defs pipeline_calls_def prompts_def split: step_splits)

lemma sav_to_json_steps_stdin [simp]: "stdin (snd (sav_to_json_steps c f out m w)) = stdin w"
  by (auto simp: step_defs split: step_splits)

lemma obj_to_sav_steps_extends:
  "\<exists>new. events (snd (obj_to_sav_steps c obj out w)) = events w @ new
     \<and> pipeline_calls new = [] \<and> prompts new = []"
  by (auto simp: step_defs pipeline_calls_def prompts_def split: step_splits)

lemma obj_to_sav_steps_stdin [simp]: "stdin (snd (obj_to_sav_steps c obj out w)) = stdin w"
  by (auto simp: step_defs split: step_splits)

lemma json_to_sav_steps_extends:
  "\<exists>new. events (snd (json_to_sav_steps c f out w)) = events w @ new
     \<and> pipeline_calls new = [] \<and> prompts new = []"
  by (auto simp: step_defs pipeline_calls_def prompts_def split: step_splits)

lemma json_to_sav_steps_stdin [simp]: "stdin (snd (json_to_sav_steps c f out w)) = stdin w"
  by (auto simp: step_defs split: step_splits)

lemma sav_to_json_steps_stop:
  "fst (sav_to_json_steps c f out m w) = Inl s \<Longrightarrow> exit_code (Inl s :: stop + unit) = 1"
  by (auto simp: step_defs split: step_splits)

lemma obj_to_sav_steps_stop:
  "fst (obj_to_sav_steps c obj out w) = Inl s \<Longrightarrow> exit_code (Inl s :: stop + unit) = 1"
  by (auto simp: step_defs split: step_splits)

lemma json_to_sav_steps_stop:
  "fst (json_to_sav_steps c f out w) = Inl s \<Longrightarrow> exit_code (Inl s :: stop + unit) = 1"
  by (auto simp: step_defs split: step_splits)

lemma sav_to_json_steps_written:
  "fst (sav_to_json_steps c f out m w) = Inr () \<Longrightarrow>
   \<exists>mid d. events (snd (sav_to_json_steps c f out m w)) = events w @ mid @ [Wrote out d]
     \<and> fs (snd (sav_to_json_steps c f out m w)) out = Some (File d)"
  by (auto simp: step_defs split: step_splits)

lemma obj_to_sav_steps_written:
  "fst (obj_to_sav_steps c obj out w) = Inr () \<Longrightarrow>
   \<exists>mid d. events (snd (obj_to_sav_steps c obj out w)) = events w @ mid @ [Wrote out d]
     \<and> fs (snd (obj_to_sav_steps c obj out w)) out = Some (File d)"
  by (auto simp: step_defs split: step_splits)

lemma json_to_sav_steps_written:
  "fst (json_to_sav_steps c f out w) = Inr () \<Longrightarrow>
   \<exists>mid d. events (snd (json_to_sav_steps c f out w)) = events w @ mid @ [Wrote out d]
     \<and> fs (snd (json_to_sav_steps c f out w)) out = Some (File d)"
  by (auto simp: step_defs split: step_splits)

lemma sav_to_json_steps_decoding_fails:
  "fs w f = Some (File data) \<Longrightarrow> decoding_fails c data \<Longrightarrow>
   fs (snd (sav_to_json_steps c f out m w)) = fs w
   \<and> (\<exists>s. fst (sav_to_json_steps c f out m w) = Inl s)"
  by (auto simp: step_defs decoding_fails_def split: step_splits)

lemma obj_to_sav_steps_rebuilding_fails:
  "rebuilding_fails c obj \<Longrightarrow>
   fs (snd (obj_to_sav_steps c obj out w)) = fs w
   \<and> (\<exists>s. fst (obj_to_sav_steps c obj out w) = Inl s)"
  by (auto simp: step_defs rebuilding_fails_def split: step_splits)

lemma json_to_sav_steps_encoding_fails:
  "fs w f = Some (File text) \<Longrightarrow> encoding_fails c text \<Longrightarrow>
   fs (snd (json_to_sav_steps c f out w)) = fs w
   \<and> (\<exists>s. fst (json_to_sav_steps c f out w) = Inl s)"
  by (auto simp: step_defs encoding_fails_def rebuilding_fails_def split: step_splits)

subsection \<open>The conversion functions\<close>

text \<open>
  A conversion function either stops in the check before overwriting, with status 1
  and the file system as it was, or it goes on with its steps in a state that differs
  from the first one by the trace and the input consumed.
\<close>

lemma convert_sav_to_json_cases:
  obtains (stopped) s w2 new where "convert_sav_to_json c f out frc m w = (Inl s, w2)"
      and "exit_code (Inl s :: stop + unit) = 1" and "fs w2 = fs w"
      and "events w2 = events w @ CallSavToJson f out frc m # new"
      and "pipeline_calls new = []" and "compress_save_types new = []"
  | (passed) w2 new where
      "convert_sav_to_json c f out frc m w = sav_to_json_steps c f out m w2"
      and "fs w2 = fs w" and "events w2 = events w @ CallSavToJson f out frc m # new"
      and "pipeline_calls new = []" and "compress_save_types new = []"
proof -
  let ?w1 = "emit (Print (''Converting '' @ f @ '' to JSON, saving to '' @ out))
    (emit (CallSavToJson f out frc m) w)"
  obtain r w2 where g: "overwrite_guard out frc ?w1 = (r, w2)"
    by (cases "overwrite_guard out frc ?w1")
  have f: "fs w2 = fs w"
    using overwrite_guard_fs [of out frc ?w1] unfolding g by simp
  obtain g' where e: "events w2 = events ?w1 @ g'"
    and p: "pipeline_calls g' = []" "compress_save_types g' = []"
    using overwrite_guard_extends [of out frc ?w1] unfolding g by auto
  let ?new = "Print (''Converting '' @ f @ '' to JSON, saving to '' @ out) # g'"
  have e': "events w2 = events w @ CallSavToJson f out frc m # ?new"
    using e by simp
  have p': "pipeline_calls ?new = []" "compress_save_types ?new = []"
    using p by (simp_all add: pipeline_calls_def)
  show thesis
  proof (cases r)
    case (Inl s)
    then have "convert_sav_to_json c f out frc m w = (Inl s, w2)"
      using g by (simp add: convert_sav_to_json_def)
    moreover have "exit_code (Inl s :: stop + unit) = 1"
      using overwrite_guard_stop [of out frc ?w1 s] unfolding g Inl by simp
    ultimately show ?thesis
      using stopped f e' p' by blast
  next
    case (Inr u)
    then have "convert_sav_to_json c f out frc m w = sav_to_json_steps c f out m w2"
      using g by (simp add: convert_sav_to_json_def)
    then show ?thesis
      using passed f e' p' by blast
  qed
qed

lemma convert_json_to_sav_cases:
  obtains (stopped) s w2 new where "convert_json_to_sav c f out frc w = (Inl s, w2)"
      and "exit_code (Inl s :: stop + unit) = 1" and "fs w2 = fs w"
      and "events w2 = events w @ CallJsonToSav f out frc # new"
      and "pipeline_calls new = []" and "compress_save_types new = []"
  | (passed) w2 new where
      "convert_json_to_sav c f out frc w = json_to_sav_steps c f out w2"
      and "fs w2 = fs w" and "events w2 = events w @ CallJsonToSav f out frc # new"
      and "pipeline_calls new = []" and "compress_save_types new = []"
proof -
  let ?w1 = "emit (Print (''Converting '' @ f @ '' to SAV, saving to '' @ out))
    (emit (CallJsonToSav f out frc) w)"
  obtain r w2 where g: "overwrite_guard out frc ?w1 = (r, w2)"
    by (cases "overwrite_guard out frc ?w1")
  have f: "fs w2 = fs w"
    using overwrite_guard_fs [of out frc ?w1] unfolding g by simp
  obtain g' where e: "events w2 = events ?w1 @ g'"
    and p: "pipeline_calls g' = []" "compress_save_types g' = []"
    using overwrite_guard_extends [of out frc ?w1] unfolding g by auto
  let ?new = "Print (''Converting '' @ f @ '' to SAV, saving to '' @ out) # g'"
  have e': "events w2 = events w @ CallJsonToSav f out frc # ?new"
    using e by simp
  have p': "pipeline_calls ?new = []" "compress_save_types ?new = []"
    using p by (simp_all add: pipeline_calls_def)
  show thesis
  proof (cases r)
    case (Inl s)
    then have "convert_json_to_sav c f out frc w = (Inl s, w2)"
      using g by (simp add: convert_json_to_sav_def)
    moreover have "exit_code (Inl s :: stop + unit) = 1"
      using overwrite_guard_stop [of out frc ?w1 s] unfolding g Inl by simp
    ultimately show ?thesis
      using stopped f e' p' by blast
  next
    case (Inr u)
    then have "convert_json_to_sav c f out frc w = json_to_sav_steps c f out w2"
      using g by (simp add: convert_json_to_sav_def)
    then show ?thesis
      using passed f e' p' by blast
  qed
qed

lemma convert_obj_to_sav_cases:
  obtains (stopped) s w2 new where "convert_obj_to_sav c obj out frc w = (Inl s, w2)"
      and "exit_code (Inl s :: stop + unit) = 1" and "fs w2 = fs w"
      and "events w2 = events w @ CallObjToSav out frc # new"
      and "pipeline_calls new = []" and "compress_save_types new = []"
  | (passed) w2 new where
      "convert_obj_to_sav c obj out frc w = obj_to_sav_steps c obj out w2"
      and "fs w2 = fs w" and "events w2 = events w @ CallObjToSav out frc # new"
      and "pipeline_calls new = []" and "compress_save_types new = []"
proof -
  let ?w1 = "emit (CallObjToSav out frc) w"
  obtain r w2 where g: "overwrite_guard out frc ?w1 = (r, w2)"
    by (cases "overwrite_guard out frc ?w1")
  have f: "fs w2 = fs w"
    using overwrite_guard_fs [of out frc ?w1] unfolding g by simp
  obtain g' where e: "events w2 = events ?w1 @ g'"
    and p: "pipeline_calls g' = []" "compress_save_types g' = []"
    using overwrite_guard_extends [of out frc ?w1] unfolding g by auto
  have e': "events w2 = events w @ CallObjToSav out frc # g'"
    using e by simp
  show thesis
  proof (cases r)
    case (Inl s)
    then have "convert_obj_to_sav c obj out frc w = (Inl s, w2)"
      using g by (simp add: convert_obj_to_sav_def)
    moreover have "exit_code (Inl s :: stop + unit) = 1"
      using overwrite_guard_stop [of out frc ?w1 s] unfolding g Inl by simp
    ultimately show ?thesis
      using stopped f e' p by blast
  next
    case (Inr u)
    then have "convert_obj_to_sav c obj out frc w = obj_to_sav_steps c obj out w2"
      using g by (simp add: convert_obj_to_sav_def)
    then show ?thesis
      using passed f e' p by blast
  qed
qed

lemma convert_sav_to_json_calls:
  "pipeline_calls (events (snd (convert_sav_to_json c f out frc m w))) =
   pipeline_calls (events w) @ [CallSavToJson f out frc m]"
proof (cases rule: convert_sav_to_json_cases [where c=c and f=f and out=out and frc=frc and m=m and w=w])
  case (stopped s w2 new)
  then show ?thesis
    by (simp add: pipeline_calls_def)
next
  case (passed w2 new)
  obtain more where "events (snd (sav_to_json_steps c f out m w2)) = events w2 @ more"
    and "pipeline_calls more = []"
    using sav_to_json_steps_extends [of c f out m w2] by blast
  with passed show ?thesis
    by (simp add: pipeline_calls_def)
qed

lemma convert_json_to_sav_calls:
  "pipeline_calls (events (snd (convert_json_to_sav c f out frc w))) =
   pipeline_calls (events w) @ [CallJsonToSav f out frc]"
proof (cases rule: convert_json_to_sav_cases [where c=c and f=f and out=out and frc=frc and w=w])
  case (stopped s w2 new)
  then show ?thesis
    by (simp add: pipeline_calls_def)
next
  case (passed w2 new)
  obtain more where "events (snd (json_to_sav_steps c f out w2)) = events w2 @ more"
    and "pipeline_calls more = []"
    using json_to_sav_steps_extends [of c f out w2] by blast
  with passed show ?thesis
    by (simp add: pipeline_calls_def)
qed

lemma convert_sav_to_json_stop:
  "fst (convert_sav_to_json c f out frc m w) = Inl s \<Longrightarrow> exit_code (Inl s :: stop + unit) = 1"
  by (cases rule: convert_sav_to_json_cases [where c=c and f=f and out=out and frc=frc and m=m and w=w])
     (auto dest: sav_to_json_steps_stop)

lemma convert_json_to_sav_stop:
  "fst (convert_json_to_sav c f out frc w) = Inl s \<Longrightarrow> exit_code (Inl s :: stop + unit) = 1"
  by (cases rule: convert_json_to_sav_cases [where c=c and f=f and out=out and frc=frc and w=w])
     (auto dest: json_to_sav_steps_stop)

lemma convert_sav_to_json_written:
  assumes "fst (convert_sav_to_json c f out frc m w) = Inr ()"
  shows "\<exists>mid d. events (snd (convert_sav_to_json c f out frc m w)) = events w @ mid @ [Wrote out d]
     \<and> fs (snd (convert_sav_to_json c f out frc m w)) out = Some (File d)"
proof (cases rule: convert_sav_to_json_cases [where c=c and f=f and out=out and frc=frc and m=m and w=w])
  case (stopped s w2 new)
  with assms show ?thesis by simp
next
  case (passed w2 new)
  with assms have "fst (sav_to_json_steps c f out m w2) = Inr ()"
    by simp
  then obtain mid d where
    "events (snd (sav_to_json_steps c f out m w2)) = events w2 @ mid @ [Wrote out d]"
    and "fs (snd (sav_to_json_steps c f out m w2)) out = Some (File d)"
    using sav_to_json_steps_written by blast
  with passed have
    "events (snd (convert_sav_to_json c f out frc m w)) =
       events w @ (CallSavToJson f out frc m # new @ mid) @ [Wrote out d]
     \<and> fs (snd (convert_sav_to_json c f out frc m w)) out = Some (File d)"
    by simp
  then show ?thesis by blast
qed

lemma convert_json_to_sav_written:
  assumes "fst (convert_json_to_sav c f out frc w) = Inr ()"
  shows "\<exists>mid d. events (snd (convert_json_to_sav c f out frc w)) = events w @ mid @ [Wrote out d]
     \<and> fs (snd (convert_json_to_sav c f out frc w)) out = Some (File d)"
proof (cases rule: convert_json_to_sav_cases [where c=c and f=f and out=out and frc=frc and w=w])
  case (stopped s w2 new)
  with assms show ?thesis by simp
next
  case (passed w2 new)
  with assms have "fst (json_to_sav_steps c f out w2) = Inr ()"
    by simp
  then obtain mid d where
    "events (snd (json_to_sav_steps c f out w2)) = events w2 @ mid @ [Wrote out d]"
    and "fs (snd (json_to_sav_steps c f out w2)) out = Some (File d)"
    using json_to_sav_steps_written by blast
  with passed have
    "events (snd (convert_json_to_sav c f out frc w)) =
       events w @ (CallJsonToSav f out frc # new @ mid) @ [Wrote out d]
     \<and> fs (snd (convert_json_to_sav c f out frc w)) out = Some (File d)"
    by simp
  then show ?thesis by blast
qed

lemma sav_not_json: "endswith s ''.sav'' \<Longrightarrow> \<not> endswith s ''.json''"
  by (cases "rev s") (auto simp: endswith_def)

text \<open>What \<^verbatim>\<open>main\<close> does once the three checks of lines 43--52 are passed.\<close>

lemma main_checked:
  assumes "\<not> (to_json a \<and> from_json a)" and "path_isfile w (filename a)"
  shows "main c a w =
    (case main_to_json c a w of
       (Inl s, w1) \<Rightarrow> (Inl s, w1)
     | (Inr u, w1) \<Rightarrow> main_from_json c a w1)"
  using assms path_isfile_exists [of w "filename a"] by (auto simp: main_def)

lemma main_unchecked:
  assumes "(to_json a \<and> from_json a) \<or> \<not> path_isfile w (filename a)"
  shows "fst (main c a w) = Inl (Exit 1) \<and> fs (snd (main c a w)) = fs w
    \<and> stdin (snd (main c a w)) = stdin w
    \<and> (\<exists>msg. events (snd (main c a w)) = events w @ [Print msg])"
  using assms path_isfile_exists [of w "filename a"] by (auto simp: main_def)

subsection \<open>The choice of the pipeline\<close>

lemmas run_defs = main_def main_to_json_def main_from_json_def convert_sav_to_json_def
  convert_json_to_sav_def convert_obj_to_sav_def overwrite_guard_def confirm_prompt_def
  json_output_path_def sav_output_path_def path_exists_def path_isfile_def endswith_def
  step_defs emit_def toy_lib_def world0_def casefold_def casefold_char_def save_type_def
  pipeline_calls_def prompts_def file_events_def str_replace.simps

text \<open>
  C4. When both \<^verbatim>\<open>--to-json\<close> and \<^verbatim>\<open>--from-json\<close> are given, \<^verbatim>\<open>main\<close> prints the
  message of the usage error and stops with status 1, whatever the file name and
  whether or not the file exists: the file system is unchanged, no file is read or
  written, no line is taken from the input and no pipeline is called.
\<close>

theorem both_flags_usage_error:
  assumes "to_json a" and "from_json a"
  shows "main c a w =
      (Inl (Exit 1), emit (Print ''Cannot specify both --to-json and --from-json'') w)
    \<and> exit_code (fst (main c a w)) = 1
    \<and> fs (snd (main c a w)) = fs w
    \<and> stdin (snd (main c a w)) = stdin w
    \<and> file_events (events (snd (main c a w))) = file_events (events w)
    \<and> pipeline_calls (events (snd (main c a w))) = pipeline_calls (events w)"
  using assms by (simp add: main_def file_events_def pipeline_calls_def)

theorem both_flags_usage_error_witness:
  "exit_code (fst (main toy_lib
      \<lparr>filename = ''missing.sav'', to_json = True, from_json = True, output_opt = None,
        force = False, minify_json = False\<rparr> (world0 [] []))) = 1
   \<and> events (snd (main toy_lib
      \<lparr>filename = ''missing.sav'', to_json = True, from_json = True, output_opt = None,
        force = False, minify_json = False\<rparr> (world0 [] []))) =
      [Print ''Cannot specify both --to-json and --from-json'']"
  using both_flags_usage_error [of
      "\<lparr>filename = ''missing.sav'', to_json = True, from_json = True, output_opt = None,
        force = False, minify_json = False\<rparr>" toy_lib "world0 [] []"]
  by (simp add: world0_def)

text \<open>
  C1, as the claim states it, fails: a request that passes the checks, with no
  direction option and a file name that ends neither in \<^verbatim>\<open>.sav\<close> nor in
  \<^verbatim>\<open>.json\<close>, runs no pipeline at all.
\<close>

theorem exactly_one_pipeline_counterexample:
  "path_isfile (world0 [(''notes.txt'', File [])] []) ''notes.txt''
   \<and> pipeline_calls (events (snd (main toy_lib
        \<lparr>filename = ''notes.txt'', to_json = False, from_json = False, output_opt = None,
          force = False, minify_json = False\<rparr>
        (world0 [(''notes.txt'', File [])] [])))) = []"
  by (simp add: run_defs)

text \<open>
  The two tests of lines 54 and 61 are independent: with \<^verbatim>\<open>--to-json\<close> and a file
  name that ends in \<^verbatim>\<open>.json\<close> the first pipeline runs, and when it has written its
  output the second one runs as well.
\<close>

lemma flag_against_suffix_runs_both:
  "pipeline_calls (events (snd (main toy_lib
        \<lparr>filename = ''a.json'', to_json = True, from_json = False, output_opt = None,
          force = False, minify_json = False\<rparr>
        (world0 [(''a.json'', File [0x31, 1, 2])] [])))) =
     [CallSavToJson ''a.json'' ''a.json.json'' False False, CallJsonToSav ''a.json'' ''a'' False]"
  by (simp add: run_defs)

text \<open>
  C1, amended. For a request that passes the checks and whose direction option, if
  any, does not go against the suffix of the file name (not \<^verbatim>\<open>--to-json\<close> with a name
  in \<^verbatim>\<open>.json\<close>, not \<^verbatim>\<open>--from-json\<close> with a name in \<^verbatim>\<open>.sav\<close>), \<^verbatim>\<open>main\<close> is the run of
  at most one pipeline: the one of the option when there is one, else the one of the
  suffix, and none when there is neither option nor known suffix.
\<close>

theorem main_selects_pipeline:
  assumes "\<not> (to_json a \<and> from_json a)" and "path_isfile w (filename a)"
    and "\<not> (to_json a \<and> endswith (filename a) ''.json'')"
    and "\<not> (from_json a \<and> endswith (filename a) ''.sav'')"
  shows "main c a w =
      (if to_json a \<or> endswith (filename a) ''.sav''
       then convert_sav_to_json c (filename a) (json_output_path a) (force a) (minify_json a) w
       else if from_json a \<or> endswith (filename a) ''.json''
       then convert_json_to_sav c (filename a) (sav_output_path a) (force a) w
       else (Inr (), w))
    \<and> pipeline_calls (events (snd (main c a w))) = pipeline_calls (events w) @
      (if to_json a \<or> endswith (filename a) ''.sav''
       then [CallSavToJson (filename a) (json_output_path a) (force a) (minify_json a)]
       else if from_json a \<or> endswith (filename a) ''.json''
       then [CallJsonToSav (filename a) (sav_output_path a) (force a)]
       else [])"
proof -
  have m: "main c a w =
    (case main_to_json c a w of
       (Inl s, w1) \<Rightarrow> (Inl s, w1)
     | (Inr u, w1) \<Rightarrow> main_from_json c a w1)"
    using assms(1,2) by (rule main_checked)
  show ?thesis
  proof (cases "to_json a \<or> endswith (filename a) ''.sav''")
    case True
    then have "\<not> (from_json a \<or> endswith (filename a) ''.json'')"
      using assms sav_not_json [of "filename a"] by blast
    then have n: "main_from_json c a w1 = (Inr (), w1)" for w1
      by (simp add: main_from_json_def)
    have "main c a w = main_to_json c a w"
      unfolding m by (auto simp: n split: prod.splits sum.splits)
    with True show ?thesis
      by (simp add: main_to_json_def convert_sav_to_json_calls)
  next
    case False
    then have "main c a w = main_from_json c a w"
      unfolding m by (simp add: main_to_json_def)
    with False show ?thesis
      by (simp add: main_from_json_def convert_json_to_sav_calls)
  qed
qed

theorem main_selects_pipeline_witness:
  "pipeline_calls (events (snd (main toy_lib
        \<lparr>filename = ''a.json'', to_json = False, from_json = True, output_opt = None,
          force = False, minify_json = False\<rparr>
        (world0 [(''a.json'', File [1, 2])] [])))) =
     [CallJsonToSav ''a.json'' ''a'' False]"
  using main_selects_pipeline [of
      "\<lparr>filename = ''a.json'', to_json = False, from_json = True, output_opt = None,
          force = False, minify_json = False\<rparr>" "world0 [(''a.json'', File [1, 2])] []" toy_lib,
      THEN conjunct2]
  by (simp add: world0_def path_isfile_def endswith_def sav_output_path_def pipeline_calls_def
      str_replace.simps)

subsection \<open>The exit status\<close>

lemma main_to_json_stop:
  "fst (main_to_json c a w) = Inl s \<Longrightarrow> exit_code (Inl s :: stop + unit) = 1"
  by (auto simp: main_to_json_def dest: convert_sav_to_json_stop split: if_splits)

lemma main_from_json_stop:
  "fst (main_from_json c a w) = Inl s \<Longrightarrow> exit_code (Inl s :: stop + unit) = 1"
  by (auto simp: main_from_json_def dest: convert_json_to_sav_stop split: if_splits)

text \<open>Whenever \<^verbatim>\<open>main\<close> stops before its end, the exit status is 1.\<close>

lemma main_stop:
  assumes "fst (main c a w) = Inl s"
  shows "exit_code (Inl s :: stop + unit) = 1"
proof (cases "(to_json a \<and> from_json a) \<or> \<not> path_isfile w (filename a)")
  case True
  then show ?thesis
    using main_unchecked [of a w c] assms by auto
next
  case False
  then have m: "main c a w =
    (case main_to_json c a w of
       (Inl s, w1) \<Rightarrow> (Inl s, w1)
     | (Inr u, w1) \<Rightarrow> main_from_json c a w1)"
    using main_checked [of a w c] by blast
  obtain r w1 where r: "main_to_json c a w = (r, w1)"
    by (cases "main_to_json c a w")
  show ?thesis
  proof (cases r)
    case (Inl s')
    with assms r have "s' = s"
      unfolding m by simp
    then show ?thesis
      using main_to_json_stop [of c a w s] r Inl by simp
  next
    case (Inr u)
    with assms r have "fst (main_from_json c a w1) = Inl s"
      unfolding m by simp
    then show ?thesis
      by (rule main_from_json_stop)
  qed
qed

text \<open>
  C3, as the claim states it, fails: with no direction option and a file name that
  ends neither in \<^verbatim>\<open>.sav\<close> nor in \<^verbatim>\<open>.json\<close>, \<^verbatim>\<open>main\<close> returns, so the exit
  status is 0, and nothing has been done: the trace is empty and the only file is as it
  was.
\<close>

theorem exit_zero_without_write_counterexample:
  "exit_code (fst (main toy_lib
        \<lparr>filename = ''notes.txt'', to_json = False, from_json = False, output_opt = None,
          force = False, minify_json = False\<rparr>
        (world0 [(''notes.txt'', File [7])] []))) = 0
   \<and> events (snd (main toy_lib
        \<lparr>filename = ''notes.txt'', to_json = False, from_json = False, output_opt = None,
          force = False, minify_json = False\<rparr>
        (world0 [(''notes.txt'', File [7])] []))) = []
   \<and> fs (snd (main toy_lib
        \<lparr>filename = ''notes.txt'', to_json = False, from_json = False, output_opt = None,
          force = False, minify_json = False\<rparr>
        (world0 [(''notes.txt'', File [7])] []))) ''notes.txt'' = Some (File [7])"
  by (simp add: run_defs)

text \<open>
  When \<^verbatim>\<open>main\<close> returns, either the last thing the process did was to write an
  output file completely, and the file holds what was written, or no pipeline was
  chosen and nothing was done.
\<close>

lemma main_returned_cases:
  assumes "exit_code (fst (main c a w)) = 0"
  shows "(\<exists>mid p d. events (snd (main c a w)) = events w @ mid @ [Wrote p d]
            \<and> fs (snd (main c a w)) p = Some (File d))
    \<or> (\<not> to_json a \<and> \<not> from_json a \<and> \<not> endswith (filename a) ''.sav''
        \<and> \<not> endswith (filename a) ''.json'' \<and> main c a w = (Inr (), w))"
proof -
  have ok: "fst (main c a w) = Inr ()"
  proof (cases "fst (main c a w)")
    case (Inl s)
    then have "exit_code (fst (main c a w)) = 1"
      using main_stop [of c a w s] by simp
    with assms show ?thesis by simp
  next
    case (Inr u)
    then show ?thesis by simp
  qed
  have checked: "\<not> ((to_json a \<and> from_json a) \<or> \<not> path_isfile w (filename a))"
    using main_unchecked [of a w c] ok by auto
  then have m: "main c a w =
    (case main_to_json c a w of
       (Inl s, w1) \<Rightarrow> (Inl s, w1)
     | (Inr u, w1) \<Rightarrow> main_from_json c a w1)"
    using main_checked [of a w c] by blast
  obtain r w1 where r: "main_to_json c a w = (r, w1)"
    by (cases "main_to_json c a w")
  have r_ok: "r = Inr ()"
    using ok r unfolding m by (cases r) simp_all
  have m2: "main c a w = main_from_json c a w1"
    unfolding m r r_ok by simp
  have first: "(\<exists>mid d. events w1 = events w @ mid @ [Wrote (json_output_path a) d]
        \<and> fs w1 (json_output_path a) = Some (File d))
      \<or> (\<not> (to_json a \<or> endswith (filename a) ''.sav'') \<and> w1 = w)"
  proof (cases "to_json a \<or> endswith (filename a) ''.sav''")
    case True
    then have eq: "convert_sav_to_json c (filename a) (json_output_path a) (force a)
        (minify_json a) w = (Inr (), w1)"
      using r r_ok by (simp add: main_to_json_def)
    then have "fst (convert_sav_to_json c (filename a) (json_output_path a) (force a)
        (minify_json a) w) = Inr ()"
      by simp
    from convert_sav_to_json_written [OF this] show ?thesis
      unfolding eq by simp
  next
    case False
    then show ?thesis
      using r by (simp add: main_to_json_def)
  qed
  show ?thesis
  proof (cases "from_json a \<or> endswith (filename a) ''.json''")
    case True
    then have c2: "main c a w =
        convert_json_to_sav c (filename a) (sav_output_path a) (force a) w1"
      unfolding m2 by (simp add: main_from_json_def)
    then obtain mid d where
      e: "events (snd (main c a w)) = events w1 @ mid @ [Wrote (sav_output_path a) d]"
      and f: "fs (snd (main c a w)) (sav_output_path a) = Some (File d)"
      using convert_json_to_sav_written
        [of c "filename a" "sav_output_path a" "force a" w1] ok
      by auto
    from first obtain pre where "events w1 = events w @ pre"
      by auto
    with e have "events (snd (main c a w)) =
        events w @ (pre @ mid) @ [Wrote (sav_output_path a) d]"
      by simp
    with f show ?thesis by blast
  next
    case False
    then have "main c a w = (Inr (), w1)"
      unfolding m2 by (simp add: main_from_json_def)
    with first False show ?thesis
      by auto
  qed
qed

text \<open>
  C3, amended. The exit status of \<^verbatim>\<open>main\<close> is 0 or 1. It is 0 in two cases only,
  both after the checks of lines 43--52 have passed: the last thing the process did was
  to write an output file completely, and the file holds what was written; or there is
  no direction option and the file name ends neither in \<^verbatim>\<open>.sav\<close> nor in \<^verbatim>\<open>.json\<close>,
  and \<^verbatim>\<open>main\<close> returns without doing anything. With both direction options, or with
  an input path that is missing or is not a regular file, \<^verbatim>\<open>main\<close> stops with
  \<^verbatim>\<open>exit(1)\<close> and touches no file, whatever the options and the suffix. Every run
  that chose a pipeline and does not end on a complete write (declined overwrite, end
  of input at the prompt, a failing function of \<^verbatim>\<open>lib\<close>, an output that cannot be
  opened) has the exit status 1.
\<close>

theorem main_exit_status:
  "(exit_code (fst (main c a w)) = 1
      \<or> (exit_code (fst (main c a w)) = 0 \<and> fst (main c a w) = Inr ()
          \<and> \<not> (to_json a \<and> from_json a)
          \<and> path_exists w (filename a) \<and> path_isfile w (filename a)
          \<and> ((\<exists>mid p d. events (snd (main c a w)) = events w @ mid @ [Wrote p d]
                  \<and> fs (snd (main c a w)) p = Some (File d))
              \<or> (\<not> to_json a \<and> \<not> from_json a \<and> \<not> endswith (filename a) ''.sav''
                  \<and> \<not> endswith (filename a) ''.json'' \<and> main c a w = (Inr (), w)))))
   \<and> ((to_json a \<and> from_json a) \<or> \<not> path_exists w (filename a)
        \<or> \<not> path_isfile w (filename a) \<longrightarrow>
          fst (main c a w) = Inl (Exit 1) \<and> exit_code (fst (main c a w)) = 1
        \<and> fs (snd (main c a w)) = fs w
        \<and> file_events (events (snd (main c a w))) = file_events (events w))
   \<and> (path_isfile w (filename a) \<and> \<not> to_json a \<and> \<not> from_json a
        \<and> \<not> endswith (filename a) ''.sav'' \<and> \<not> endswith (filename a) ''.json'' \<longrightarrow>
          main c a w = (Inr (), w) \<and> exit_code (fst (main c a w)) = 0)
   \<and> ((to_json a \<or> from_json a \<or> endswith (filename a) ''.sav''
          \<or> endswith (filename a) ''.json'')
        \<and> \<not> (\<exists>mid p d. events (snd (main c a w)) = events w @ mid @ [Wrote p d]
                  \<and> fs (snd (main c a w)) p = Some (File d)) \<longrightarrow>
          exit_code (fst (main c a w)) = 1)"
proof -
  let ?written = "\<exists>mid p d. events (snd (main c a w)) = events w @ mid @ [Wrote p d]
      \<and> fs (snd (main c a w)) p = Some (File d)"
  let ?idle = "\<not> to_json a \<and> \<not> from_json a \<and> \<not> endswith (filename a) ''.sav''
      \<and> \<not> endswith (filename a) ''.json'' \<and> main c a w = (Inr (), w)"
  have refused: "fst (main c a w) = Inl (Exit 1) \<and> exit_code (fst (main c a w)) = 1
      \<and> fs (snd (main c a w)) = fs w
      \<and> file_events (events (snd (main c a w))) = file_events (events w)"
    if "(to_json a \<and> from_json a) \<or> \<not> path_exists w (filename a)
      \<or> \<not> path_isfile w (filename a)"
  proof -
    from that have "(to_json a \<and> from_json a) \<or> \<not> path_isfile w (filename a)"
      using path_isfile_exists [of w "filename a"] by blast
    from main_unchecked [OF this, of c] show ?thesis
      by (auto simp: file_events_def)
  qed
  have dichotomy: "exit_code (fst (main c a w)) = 1
      \<or> (exit_code (fst (main c a w)) = 0 \<and> fst (main c a w) = Inr ()
          \<and> \<not> (to_json a \<and> from_json a)
          \<and> path_exists w (filename a) \<and> path_isfile w (filename a)
          \<and> (?written \<or> ?idle))"
  proof (cases "fst (main c a w)")
    case (Inl s)
    then have "exit_code (fst (main c a w)) = 1"
      using main_stop [of c a w s] by simp
    then show ?thesis ..
  next
    case (Inr u)
    then have z: "exit_code (fst (main c a w)) = 0" and r: "fst (main c a w) = Inr ()"
      by simp_all
    from r refused have "\<not> (to_json a \<and> from_json a)" and "path_exists w (filename a)"
      and "path_isfile w (filename a)"
      by auto
    moreover from main_returned_cases [OF z] have "?written \<or> ?idle" .
    ultimately show ?thesis
      using z r by blast
  qed
  have idle: "main c a w = (Inr (), w) \<and> exit_code (fst (main c a w)) = 0"
    if "path_isfile w (filename a) \<and> \<not> to_json a \<and> \<not> from_json a
      \<and> \<not> endswith (filename a) ''.sav'' \<and> \<not> endswith (filename a) ''.json''"
  proof -
    from that have "main c a w =
      (case main_to_json c a w of
         (Inl s, w1) \<Rightarrow> (Inl s, w1)
       | (Inr u, w1) \<Rightarrow> main_from_json c a w1)"
      by (intro main_checked) simp_all
    with that show ?thesis
      by (simp add: main_to_json_def main_from_json_def)
  qed
  have unwritten: "exit_code (fst (main c a w)) = 1"
    if "(to_json a \<or> from_json a \<or> endswith (filename a) ''.sav''
        \<or> endswith (filename a) ''.json'') \<and> \<not> ?written"
    using dichotomy that by blast
  from dichotomy refused idle unwritten show ?thesis
    by blast
qed

theorem main_exit_status_witness:
  "exit_code (fst (main toy_lib
        \<lparr>filename = ''gone.sav'', to_json = False, from_json = False, output_opt = None,
          force = False, minify_json = False\<rparr> (world0 [] []))) = 1
   \<and> exit_code (fst (main toy_lib
        \<lparr>filename = ''a.sav'', to_json = False, from_json = False, output_opt = None,
          force = False, minify_json = False\<rparr>
        (world0 [(''a.sav'', File [0x31, 1, 2]), (''a.sav.json'', File [7])] [''n'']))) = 1
   \<and> exit_code (fst (main toy_lib
        \<lparr>filename = ''a.sav'', to_json = False, from_json = False, output_opt = None,
          force = False, minify_json = True\<rparr>
        (world0 [(''a.sav'', File [0x31, 1, 2])] []))) = 0
   \<and> fs (snd (main toy_lib
        \<lparr>filename = ''a.sav'', to_json = False, from_json = False, output_opt = None,
          force = False, minify_json = True\<rparr>
        (world0 [(''a.sav'', File [0x31, 1, 2])] []))) ''a.sav.json'' = Some (File [1, 2])"
proof -
  let ?gone = "\<lparr>filename = ''gone.sav'', to_json = False, from_json = False,
      output_opt = None, force = False, minify_json = False\<rparr>"
  let ?a = "\<lparr>filename = ''a.sav'', to_json = False, from_json = False, output_opt = None,
      force = False, minify_json = False\<rparr>"
  let ?w = "world0 [(''a.sav'', File [0x31, 1, 2]), (''a.sav.json'', File [7])] [''n'']"
  have g: "(to_json ?gone \<and> from_json ?gone) \<or> \<not> path_exists (world0 [] []) (filename ?gone)
      \<or> \<not> path_isfile (world0 [] []) (filename ?gone)"
    by (simp add: path_exists_def world0_def)
  have 1: "exit_code (fst (main toy_lib ?gone (world0 [] []))) = 1"
    using main_exit_status [where c = toy_lib and a = ?gone and w = "world0 [] []"] g
    by blast
  have d: "(to_json ?a \<or> from_json ?a \<or> endswith (filename ?a) ''.sav''
        \<or> endswith (filename ?a) ''.json'')
      \<and> \<not> (\<exists>mid p d. events (snd (main toy_lib ?a ?w)) = events ?w @ mid @ [Wrote p d]
            \<and> fs (snd (main toy_lib ?a ?w)) p = Some (File d))"
    by (simp add: run_defs)
  have 2: "exit_code (fst (main toy_lib ?a ?w)) = 1"
    using main_exit_status [where c = toy_lib and a = ?a and w = ?w] d
    by blast
  have 3: "exit_code (fst (main toy_lib
        \<lparr>filename = ''a.sav'', to_json = False, from_json = False, output_opt = None,
          force = False, minify_json = True\<rparr>
        (world0 [(''a.sav'', File [0x31, 1, 2])] []))) = 0"
    by (simp add: run_defs)
  have 4: "fs (snd (main toy_lib
        \<lparr>filename = ''a.sav'', to_json = False, from_json = False, output_opt = None,
          force = False, minify_json = True\<rparr>
        (world0 [(''a.sav'', File [0x31, 1, 2])] []))) ''a.sav.json'' = Some (File [1, 2])"
    by (simp add: run_defs)
  from 1 2 3 4 show ?thesis
    by blast
qed

lemma sav_output_path_minify: "sav_output_path (a\<lparr>minify_json := m\<rparr>) = sav_output_path a"
  by (simp add: sav_output_path_def split: option.splits)

text \<open>
  C10. The lines 61--66 of \<^verbatim>\<open>main\<close>, which run the pipeline from JSON, do not
  read \<^verbatim>\<open>args.minify_json\<close>: from the same state they do the same, whatever the
  option. When the pipeline to JSON is not chosen, the whole run of \<^verbatim>\<open>main\<close> (exit
  status, files, trace) is the same with and without the option.
\<close>

theorem minify_does_not_reach_sav:
  "main_from_json c (a\<lparr>minify_json := m\<rparr>) w = main_from_json c a w
   \<and> (\<not> to_json a \<and> \<not> endswith (filename a) ''.sav'' \<longrightarrow>
        main c (a\<lparr>minify_json := m\<rparr>) w = main c a w)"
  by (simp add: main_def main_to_json_def main_from_json_def sav_output_path_minify)

theorem minify_does_not_reach_sav_witness:
  "fs (snd (main toy_lib
        \<lparr>filename = ''w.json'', to_json = False, from_json = False, output_opt = None,
          force = False, minify_json = True\<rparr>
        (world0 [(''w.json'', File [0x57, 1])] []))) ''w'' = Some (File [0x32, 0x57, 1])
   \<and> fs (snd (main toy_lib
        \<lparr>filename = ''w.json'', to_json = False, from_json = False, output_opt = None,
          force = False, minify_json = False\<rparr>
        (world0 [(''w.json'', File [0x57, 1])] []))) ''w'' = Some (File [0x32, 0x57, 1])"
proof -
  have "main toy_lib
        (\<lparr>filename = ''w.json'', to_json = False, from_json = False, output_opt = None,
          force = False, minify_json = False\<rparr>\<lparr>minify_json := True\<rparr>)
        (world0 [(''w.json'', File [0x57, 1])] []) =
      main toy_lib
        \<lparr>filename = ''w.json'', to_json = False, from_json = False, output_opt = None,
          force = False, minify_json = False\<rparr>
        (world0 [(''w.json'', File [0x57, 1])] [])"
    using minify_does_not_reach_sav [where c = toy_lib
        and a = "\<lparr>filename = ''w.json'', to_json = False, from_json = False, output_opt = None,
          force = False, minify_json = False\<rparr>"
        and m = True and w = "world0 [(''w.json'', File [0x57, 1])] []"]
    by (simp add: endswith_def)
  moreover have "fs (snd (main toy_lib
        \<lparr>filename = ''w.json'', to_json = False, from_json = False, output_opt = None,
          force = False, minify_json = False\<rparr>
        (world0 [(''w.json'', File [0x57, 1])] []))) ''w'' = Some (File [0x32, 0x57, 1])"
    by (simp add: run_defs)
  ultimately show ?thesis
    by simp
qed

subsection \<open>The output path\<close>

lemma startswith_append_self [simp]: "startswith (p @ t) p"
  by (simp add: startswith_iff)

lemma str_replace_absent:
  "old \<noteq> [] \<Longrightarrow> \<not> str_in old s \<Longrightarrow> str_replace old new s = s"
proof (induction s)
  case Nil
  then show ?case
    by (cases old) (simp_all add: str_replace.simps [where s = "[]"])
next
  case (Cons c cs)
  then show ?case
    by (simp add: str_replace.simps [of old new "c # cs"])
qed

text \<open>
  An occurrence of \<open>old\<close> that starts inside \<open>p\<close>, in \<open>p\<close> followed by \<open>old\<close>, is
  an occurrence in \<open>p\<close> followed by \<open>old\<close> without its last character.
\<close>

lemma startswith_shorter:
  assumes "startswith (x @ y) old" and "length old \<le> length x"
  shows "startswith x old"
proof -
  obtain t where "x @ y = old @ t"
    using assms(1) unfolding startswith_iff ..
  then have "take (length old) (x @ y) = old"
    by simp
  with assms(2) have "take (length old) x = old"
    by simp
  then have "x = old @ drop (length old) x"
    by (metis append_take_drop_id)
  then show ?thesis
    unfolding startswith_iff ..
qed

lemma str_replace_first:
  assumes "old \<noteq> []" and "\<not> str_in old (p @ butlast old)"
  shows "str_replace old new (p @ old @ q) = p @ new @ str_replace old new q"
  using assms(2)
proof (induction p)
  case Nil
  show ?case
    using assms(1) by (simp add: str_replace.simps [of old new "old @ q"])
next
  case (Cons c p)
  from Cons.prems have 1: "\<not> startswith (c # p @ butlast old) old"
    and 2: "\<not> str_in old (p @ butlast old)"
    by simp_all
  have "butlast old @ [last old] = old"
    using assms(1) by simp
  then have "(butlast old @ [last old]) @ q = old @ q"
    by simp
  then have e: "(c # p @ butlast old) @ (last old # q) = c # p @ old @ q"
    by simp
  have "\<not> startswith (c # p @ old @ q) old"
  proof
    assume "startswith (c # p @ old @ q) old"
    then have "startswith ((c # p @ butlast old) @ (last old # q)) old"
      unfolding e .
    moreover have "length old \<le> length (c # p @ butlast old)"
      by simp
    ultimately have "startswith (c # p @ butlast old) old"
      by (rule startswith_shorter)
    with 1 show False ..
  qed
  then have "str_replace old new ((c # p) @ old @ q) = c # str_replace old new (p @ old @ q)"
    using assms(1) by (simp add: str_replace.simps [of old new "c # p @ old @ q"])
  with Cons.IH [OF 2] show ?case
    by simp
qed

text \<open>
  C2, as the claim states it, fails. \<^verbatim>\<open>str.replace\<close> removes every occurrence of
  \<^verbatim>\<open>.json\<close>, not one: \<^verbatim>\<open>a.json.json\<close> gives \<^verbatim>\<open>a\<close>, and not \<^verbatim>\<open>a.json\<close>, which is
  what is left when one occurrence is removed. And an override that is the empty string
  is not used: \<^verbatim>\<open>not args.output\<close> holds of it, and the default path is taken.
\<close>

theorem one_occurrence_counterexample:
  "sav_output_path \<lparr>filename = ''a.json.json'', to_json = False, from_json = False,
      output_opt = None, force = False, minify_json = False\<rparr> = ''a''
   \<and> sav_output_path \<lparr>filename = ''a.json.json'', to_json = False, from_json = False,
      output_opt = None, force = False, minify_json = False\<rparr> \<noteq> ''a.json''
   \<and> json_output_path \<lparr>filename = ''save.sav'', to_json = False, from_json = False,
      output_opt = Some [], force = False, minify_json = False\<rparr> = ''save.sav.json''"
  by (simp add: sav_output_path_def json_output_path_def str_replace.simps)

text \<open>
  C2, amended. Without an override (the option absent, or given as the empty string)
  the path to JSON is the whole input name followed by \<^verbatim>\<open>.json\<close>, and the path from
  JSON is the input name with every occurrence of \<^verbatim>\<open>.json\<close> removed, from left to
  right: a name without the substring is kept; in a name \<open>p @ ''.json'' @ q\<close> where no
  occurrence starts inside \<open>p\<close>, that first occurrence is removed and the removal goes
  on in \<open>q\<close>; so a name with a single occurrence loses exactly that one. An override
  that is not empty is used as it is, in both directions.
\<close>

theorem output_path_derivation:
  "(output_opt a = None \<or> output_opt a = Some [] \<longrightarrow>
      json_output_path a = filename a @ ''.json''
      \<and> sav_output_path a = str_replace ''.json'' [] (filename a)
      \<and> (\<not> str_in ''.json'' (filename a) \<longrightarrow> sav_output_path a = filename a)
      \<and> (filename a = p @ ''.json'' @ q \<and> \<not> str_in ''.json'' (p @ ''.jso'') \<longrightarrow>
           sav_output_path a = p @ str_replace ''.json'' [] q)
      \<and> (filename a = p @ ''.json'' @ q \<and> \<not> str_in ''.json'' (p @ ''.jso'')
           \<and> \<not> str_in ''.json'' q \<longrightarrow> sav_output_path a = p @ q))
   \<and> (output_opt a = Some out \<and> out \<noteq> [] \<longrightarrow>
        json_output_path a = out \<and> sav_output_path a = out)"
proof -
  have first: "str_replace ''.json'' [] (p @ ''.json'' @ q) = p @ str_replace ''.json'' [] q"
    if "\<not> str_in ''.json'' (p @ ''.jso'')"
    using str_replace_first [of "''.json''" p "[]" q] that by simp
  have absent: "str_replace ''.json'' [] s = s" if "\<not> str_in ''.json'' s" for s
    using str_replace_absent [of "''.json''" s "[]"] that by simp
  have "json_output_path a = filename a @ ''.json''
      \<and> sav_output_path a = str_replace ''.json'' [] (filename a)"
    if "output_opt a = None \<or> output_opt a = Some []"
    using that by (auto simp: json_output_path_def sav_output_path_def)
  moreover have "json_output_path a = out \<and> sav_output_path a = out"
    if "output_opt a = Some out \<and> out \<noteq> []"
    using that by (simp add: json_output_path_def sav_output_path_def)
  ultimately show ?thesis
    using first absent by auto
qed

theorem output_path_derivation_witness:
  "json_output_path \<lparr>filename = ''save.sav'', to_json = False, from_json = False,
      output_opt = None, force = False, minify_json = False\<rparr> = ''save.sav.json''
   \<and> sav_output_path \<lparr>filename = ''profile.json'', to_json = False, from_json = False,
      output_opt = None, force = False, minify_json = False\<rparr> = ''profile''
   \<and> sav_output_path \<lparr>filename = ''profile.json'', to_json = False, from_json = False,
      output_opt = Some ''out.sav'', force = False, minify_json = False\<rparr> = ''out.sav''"
proof -
  let ?A = "\<lparr>filename = ''save.sav'', to_json = False, from_json = False,
      output_opt = None, force = False, minify_json = False\<rparr>"
  let ?B = "\<lparr>filename = ''profile.json'', to_json = False, from_json = False,
      output_opt = None, force = False, minify_json = False\<rparr>"
  let ?C = "\<lparr>filename = ''profile.json'', to_json = False, from_json = False,
      output_opt = Some ''out.sav'', force = False, minify_json = False\<rparr>"
  have a: "output_opt ?A = None"
    by simp
  have "json_output_path ?A = filename ?A @ ''.json''"
    using output_path_derivation [where a = ?A] a by blast
  then have 1: "json_output_path ?A = ''save.sav.json''"
    by simp
  have b: "output_opt ?B = None" "filename ?B = ''profile'' @ ''.json'' @ []"
    "\<not> str_in ''.json'' (''profile'' @ ''.jso'')" "\<not> str_in ''.json'' []"
    by simp_all
  have "sav_output_path ?B = ''profile'' @ []"
    using output_path_derivation [where a = ?B and p = "''profile''" and q = "[]"] b by blast
  then have 2: "sav_output_path ?B = ''profile''"
    by simp
  have c: "output_opt ?C = Some ''out.sav''" "''out.sav'' \<noteq> []"
    by simp_all
  have 3: "sav_output_path ?C = ''out.sav''"
    using output_path_derivation [where a = ?C and out = "''out.sav''"] c by blast
  from 1 2 3 show ?thesis
    by blast
qed

subsection \<open>Asking before overwriting\<close>

lemma overwrite_guard_asked:
  assumes "path_exists w out" and "stdin w = bad @ r # rest"
    and "\<forall>b\<in>set bad. casefold b \<noteq> ''y'' \<and> casefold b \<noteq> ''n''"
    and "casefold r = ''y'' \<or> casefold r = ''n''"
  shows "overwrite_guard out False w =
    (if casefold r = ''y'' then Inr () else Inl (Exit 1), asked out (Suc (length bad)) rest w)"
proof -
  let ?q = "''Are you sure you want to continue?''"
  let ?w1 = "emit (Print (out @ '' already exists, this will overwrite the file'')) w"
  have "confirm_loop ?q None (bad @ r # rest) (events ?w1) =
      (Inr (casefold r = ''y''), rest,
       events ?w1 @ replicate (Suc (length bad)) (Prompt (?q @ '' (y/n): '')))"
    using assms(3,4) by (intro confirm_loop_retry) simp_all
  then have "confirm_prompt ?q ?w1 =
      (Inr (casefold r = ''y''), asked out (Suc (length bad)) rest w)"
    using assms(2) by (simp add: confirm_prompt_def asked_def emit_def)
  then show ?thesis
    using assms(1) by (simp add: overwrite_guard_def)
qed

lemma asked_fs [simp]: "fs (asked out k rest w) = fs w"
  by (simp add: asked_def)

lemma asked_stdin [simp]: "stdin (asked out k rest w) = rest"
  by (simp add: asked_def)

lemma prompts_Nil [simp]: "prompts [] = []"
  by (simp add: prompts_def)

lemma prompts_Cons [simp]:
  "prompts (e # tr) = (if is_prompt e then e # prompts tr else prompts tr)"
  by (simp add: prompts_def)

lemma asked_prompts [simp]:
  "prompts (events (asked out k rest w)) =
   prompts (events w) @ replicate k (Prompt ''Are you sure you want to continue? (y/n): '')"
  by (simp add: asked_def)

text \<open>
  C5. The output path exists and \<^verbatim>\<open>force\<close> is not set; the input holds the replies
  \<open>bad\<close>, none of which folds to \<^verbatim>\<open>y\<close> or \<^verbatim>\<open>n\<close>, then a reply \<open>r\<close> that does.
  The check prints its warning and shows the prompt once for every reply of \<open>bad\<close> and
  once more for \<open>r\<close>, and takes exactly these lines from the input. When \<open>r\<close> folds
  to \<^verbatim>\<open>n\<close>, each conversion function stops with \<^verbatim>\<open>exit(1)\<close> and the file system is
  what it was; when \<open>r\<close> folds to \<^verbatim>\<open>y\<close>, the function goes on with its steps.
\<close>

theorem overwrite_asks_until_answered:
  assumes "path_exists w out" and "stdin w = bad @ r # rest"
    and "\<forall>b\<in>set bad. casefold b \<noteq> ''y'' \<and> casefold b \<noteq> ''n''"
    and "casefold r = ''y'' \<or> casefold r = ''n''"
  shows "overwrite_guard out False w =
      (if casefold r = ''y'' then Inr () else Inl (Exit 1), asked out (Suc (length bad)) rest w)
    \<and> (casefold r = ''n'' \<longrightarrow>
          fst (convert_sav_to_json c f out False m w) = Inl (Exit 1)
        \<and> exit_code (fst (convert_sav_to_json c f out False m w)) \<noteq> 0
        \<and> fs (snd (convert_sav_to_json c f out False m w)) = fs w
        \<and> stdin (snd (convert_sav_to_json c f out False m w)) = rest
        \<and> prompts (events (snd (convert_sav_to_json c f out False m w))) = prompts (events w)
            @ replicate (Suc (length bad)) (Prompt ''Are you sure you want to continue? (y/n): '')
        \<and> fst (convert_json_to_sav c f out False w) = Inl (Exit 1)
        \<and> exit_code (fst (convert_json_to_sav c f out False w)) \<noteq> 0
        \<and> fs (snd (convert_json_to_sav c f out False w)) = fs w
        \<and> stdin (snd (convert_json_to_sav c f out False w)) = rest
        \<and> prompts (events (snd (convert_json_to_sav c f out False w))) = prompts (events w)
            @ replicate (Suc (length bad)) (Prompt ''Are you sure you want to continue? (y/n): '')
        \<and> fst (convert_obj_to_sav c obj out False w) = Inl (Exit 1)
        \<and> fs (snd (convert_obj_to_sav c obj out False w)) = fs w)
    \<and> (casefold r = ''y'' \<longrightarrow>
          convert_sav_to_json c f out False m w =
            sav_to_json_steps c f out m (asked out (Suc (length bad)) rest
              (emit (Print (''Converting '' @ f @ '' to JSON, saving to '' @ out))
                (emit (CallSavToJson f out False m) w)))
        \<and> convert_json_to_sav c f out False w =
            json_to_sav_steps c f out (asked out (Suc (length bad)) rest
              (emit (Print (''Converting '' @ f @ '' to SAV, saving to '' @ out))
                (emit (CallJsonToSav f out False) w)))
        \<and> convert_obj_to_sav c obj out False w =
            obj_to_sav_steps c obj out (asked out (Suc (length bad)) rest
              (emit (CallObjToSav out False) w)))"
proof -
  have g: "overwrite_guard out False w' =
      (if casefold r = ''y'' then Inr () else Inl (Exit 1), asked out (Suc (length bad)) rest w')"
    if "path_exists w' out" and "stdin w' = bad @ r # rest" for w'
    using that assms(3,4) by (rule overwrite_guard_asked)
  let ?j = "emit (Print (''Converting '' @ f @ '' to JSON, saving to '' @ out))
      (emit (CallSavToJson f out False m) w)"
  let ?s = "emit (Print (''Converting '' @ f @ '' to SAV, saving to '' @ out))
      (emit (CallJsonToSav f out False) w)"
  let ?o = "emit (CallObjToSav out False) w"
  have gj: "overwrite_guard out False ?j =
      (if casefold r = ''y'' then Inr () else Inl (Exit 1), asked out (Suc (length bad)) rest ?j)"
    using assms(1,2) by (intro g) simp_all
  have gs: "overwrite_guard out False ?s =
      (if casefold r = ''y'' then Inr () else Inl (Exit 1), asked out (Suc (length bad)) rest ?s)"
    using assms(1,2) by (intro g) simp_all
  have go: "overwrite_guard out False ?o =
      (if casefold r = ''y'' then Inr () else Inl (Exit 1), asked out (Suc (length bad)) rest ?o)"
    using assms(1,2) by (intro g) simp_all
  have j: "convert_sav_to_json c f out False m w =
      (if casefold r = ''y'' then sav_to_json_steps c f out m (asked out (Suc (length bad)) rest ?j)
       else (Inl (Exit 1), asked out (Suc (length bad)) rest ?j))"
    unfolding convert_sav_to_json_def Let_def gj by simp
  have s: "convert_json_to_sav c f out False w =
      (if casefold r = ''y'' then json_to_sav_steps c f out (asked out (Suc (length bad)) rest ?s)
       else (Inl (Exit 1), asked out (Suc (length bad)) rest ?s))"
    unfolding convert_json_to_sav_def Let_def gs by simp
  have o: "convert_obj_to_sav c obj out False w =
      (if casefold r = ''y'' then obj_to_sav_steps c obj out (asked out (Suc (length bad)) rest ?o)
       else (Inl (Exit 1), asked out (Suc (length bad)) rest ?o))"
    unfolding convert_obj_to_sav_def Let_def go by simp
  have ny: "casefold r = ''n'' \<Longrightarrow> casefold r \<noteq> ''y''"
    by simp
  have n: "casefold r = ''n'' \<longrightarrow>
          fst (convert_sav_to_json c f out False m w) = Inl (Exit 1)
        \<and> exit_code (fst (convert_sav_to_json c f out False m w)) \<noteq> 0
        \<and> fs (snd (convert_sav_to_json c f out False m w)) = fs w
        \<and> stdin (snd (convert_sav_to_json c f out False m w)) = rest
        \<and> prompts (events (snd (convert_sav_to_json c f out False m w))) = prompts (events w)
            @ replicate (Suc (length bad)) (Prompt ''Are you sure you want to continue? (y/n): '')
        \<and> fst (convert_json_to_sav c f out False w) = Inl (Exit 1)
        \<and> exit_code (fst (convert_json_to_sav c f out False w)) \<noteq> 0
        \<and> fs (snd (convert_json_to_sav c f out False w)) = fs w
        \<and> stdin (snd (convert_json_to_sav c f out False w)) = rest
        \<and> prompts (events (snd (convert_json_to_sav c f out False w))) = prompts (events w)
            @ replicate (Suc (length bad)) (Prompt ''Are you sure you want to continue? (y/n): '')
        \<and> fst (convert_obj_to_sav c obj out False w) = Inl (Exit 1)
        \<and> fs (snd (convert_obj_to_sav c obj out False w)) = fs w"
    unfolding j s o using ny by simp
  have y: "casefold r = ''y'' \<longrightarrow>
          convert_sav_to_json c f out False m w =
            sav_to_json_steps c f out m (asked out (Suc (length bad)) rest ?j)
        \<and> convert_json_to_sav c f out False w =
            json_to_sav_steps c f out (asked out (Suc (length bad)) rest ?s)
        \<and> convert_obj_to_sav c obj out False w =
            obj_to_sav_steps c obj out (asked out (Suc (length bad)) rest ?o)"
    unfolding j s o by simp
  from g [OF assms(1,2)] n y show ?thesis
    by blast
qed

theorem overwrite_asks_until_answered_witness:
  "fst (convert_sav_to_json toy_lib ''a.sav'' ''a.sav.json'' False False
      (world0 [(''a.sav'', File [0x31, 1, 2]), (''a.sav.json'', File [7])] [''maybe'', ''N''])) =
     Inl (Exit 1)
   \<and> fs (snd (convert_sav_to_json toy_lib ''a.sav'' ''a.sav.json'' False False
      (world0 [(''a.sav'', File [0x31, 1, 2]), (''a.sav.json'', File [7])] [''maybe'', ''N''])))
      ''a.sav.json'' = Some (File [7])
   \<and> prompts (events (snd (convert_sav_to_json toy_lib ''a.sav'' ''a.sav.json'' False False
      (world0 [(''a.sav'', File [0x31, 1, 2]), (''a.sav.json'', File [7])] [''maybe'', ''N'']))))
      = [Prompt ''Are you sure you want to continue? (y/n): '',
         Prompt ''Are you sure you want to continue? (y/n): '']"
proof -
  let ?w = "world0 [(''a.sav'', File [0x31, 1, 2]), (''a.sav.json'', File [7])] [''maybe'', ''N'']"
  have h1: "path_exists ?w ''a.sav.json''"
    by (simp add: path_exists_def world0_def)
  have h2: "stdin ?w = [''maybe''] @ ''N'' # []"
    by (simp add: world0_def)
  have h3: "\<forall>b\<in>set [''maybe'']. casefold b \<noteq> ''y'' \<and> casefold b \<noteq> ''n''"
    by (simp add: casefold_def)
  have h4: "casefold ''N'' = ''y'' \<or> casefold ''N'' = ''n''"
    by (simp add: casefold_def casefold_char_def)
  have n: "casefold ''N'' = ''n''"
    by (simp add: casefold_def casefold_char_def)
  note t = overwrite_asks_until_answered [OF h1 h2 h3 h4, where c = toy_lib and f = "''a.sav''"
      and m = False, THEN conjunct2, THEN conjunct1, rule_format, OF n]
  have "fs ?w ''a.sav.json'' = Some (File [7])" and "prompts (events ?w) = []"
    by (simp_all add: world0_def)
  with t show ?thesis
    by simp
qed

subsection \<open>Forcing the overwrite\<close>

lemma overwrite_guard_forced:
  "path_exists w out \<Longrightarrow> overwrite_guard out True w =
     (Inr (), emit (Print (out @ '' already exists, this will overwrite the file'')) w)"
  by (simp add: overwrite_guard_def)

lemma sav_to_json_steps_prompts [simp]:
  "prompts (events (snd (sav_to_json_steps c f out m w))) = prompts (events w)"
  using sav_to_json_steps_extends [of c f out m w] by auto

lemma json_to_sav_steps_prompts [simp]:
  "prompts (events (snd (json_to_sav_steps c f out w))) = prompts (events w)"
  using json_to_sav_steps_extends [of c f out w] by auto

lemma obj_to_sav_steps_prompts [simp]:
  "prompts (events (snd (obj_to_sav_steps c obj out w))) = prompts (events w)"
  using obj_to_sav_steps_extends [of c obj out w] by auto

text \<open>What the steps leave when no function of \<^verbatim>\<open>lib\<close> raises and the output can be opened.\<close>

lemma sav_to_json_steps_done:
  assumes "fs w f = Some (File data)" and "json_text c data m = Some t"
    and "out \<noteq> []" and "fs w out \<noteq> Some Dir"
  shows "fst (sav_to_json_steps c f out m w) = Inr ()
    \<and> fs (snd (sav_to_json_steps c f out m w)) = (fs w)(out \<mapsto> File t)"
  using assms by (auto simp: step_defs json_text_def split: step_splits)

lemma json_to_sav_steps_done:
  assumes "fs w f = Some (File text)" and "sav_bytes c text = Some t"
    and "out \<noteq> []" and "fs w out \<noteq> Some Dir"
  shows "fst (json_to_sav_steps c f out w) = Inr ()
    \<and> fs (snd (json_to_sav_steps c f out w)) = (fs w)(out \<mapsto> File t)"
  using assms
  by (auto simp: step_defs sav_bytes_def sav_bytes_of_obj_def split: step_splits)

text \<open>
  C8. The output path exists and \<^verbatim>\<open>force\<close> is set. The check prints its warning
  and lets the function go on with its steps; nothing is read from the input and no
  prompt is shown in the whole run of the function. When the output path is a regular
  file and no function of \<^verbatim>\<open>lib\<close> raises, the function returns and has overwritten
  the file with the result of the conversion.
\<close>

theorem forced_overwrite_proceeds:
  assumes "path_exists w out"
  shows "overwrite_guard out True w =
      (Inr (), emit (Print (out @ '' already exists, this will overwrite the file'')) w)
    \<and> convert_sav_to_json c f out True m w =
        sav_to_json_steps c f out m
          (emit (Print (out @ '' already exists, this will overwrite the file''))
            (emit (Print (''Converting '' @ f @ '' to JSON, saving to '' @ out))
              (emit (CallSavToJson f out True m) w)))
    \<and> convert_json_to_sav c f out True w =
        json_to_sav_steps c f out
          (emit (Print (out @ '' already exists, this will overwrite the file''))
            (emit (Print (''Converting '' @ f @ '' to SAV, saving to '' @ out))
              (emit (CallJsonToSav f out True) w)))
    \<and> prompts (events (snd (convert_sav_to_json c f out True m w))) = prompts (events w)
    \<and> stdin (snd (convert_sav_to_json c f out True m w)) = stdin w
    \<and> prompts (events (snd (convert_json_to_sav c f out True w))) = prompts (events w)
    \<and> stdin (snd (convert_json_to_sav c f out True w)) = stdin w
    \<and> (path_isfile w out \<and> out \<noteq> [] \<and> fs w f = Some (File data) \<and> json_text c data m = Some t \<longrightarrow>
          fst (convert_sav_to_json c f out True m w) = Inr ()
        \<and> fs (snd (convert_sav_to_json c f out True m w)) = (fs w)(out \<mapsto> File t))
    \<and> (path_isfile w out \<and> out \<noteq> [] \<and> fs w f = Some (File data) \<and> sav_bytes c data = Some t \<longrightarrow>
          fst (convert_json_to_sav c f out True w) = Inr ()
        \<and> fs (snd (convert_json_to_sav c f out True w)) = (fs w)(out \<mapsto> File t))"
proof -
  let ?warn = "Print (out @ '' already exists, this will overwrite the file'')"
  let ?j = "emit (Print (''Converting '' @ f @ '' to JSON, saving to '' @ out))
      (emit (CallSavToJson f out True m) w)"
  let ?s = "emit (Print (''Converting '' @ f @ '' to SAV, saving to '' @ out))
      (emit (CallJsonToSav f out True) w)"
  have g: "overwrite_guard out True w = (Inr (), emit ?warn w)"
    using assms by (rule overwrite_guard_forced)
  have gj: "overwrite_guard out True ?j = (Inr (), emit ?warn ?j)"
    using assms by (intro overwrite_guard_forced) simp
  have gs: "overwrite_guard out True ?s = (Inr (), emit ?warn ?s)"
    using assms by (intro overwrite_guard_forced) simp
  have j: "convert_sav_to_json c f out True m w = sav_to_json_steps c f out m (emit ?warn ?j)"
    unfolding convert_sav_to_json_def Let_def gj by simp
  have s: "convert_json_to_sav c f out True w = json_to_sav_steps c f out (emit ?warn ?s)"
    unfolding convert_json_to_sav_def Let_def gs by simp
  have quiet: "prompts (events (snd (convert_sav_to_json c f out True m w))) = prompts (events w)
      \<and> stdin (snd (convert_sav_to_json c f out True m w)) = stdin w
      \<and> prompts (events (snd (convert_json_to_sav c f out True w))) = prompts (events w)
      \<and> stdin (snd (convert_json_to_sav c f out True w)) = stdin w"
    unfolding j s by simp
  have notdir: "fs w out \<noteq> Some Dir" if "path_isfile w out"
    using that by (auto simp: path_isfile_def)
  have dj: "fst (convert_sav_to_json c f out True m w) = Inr ()
        \<and> fs (snd (convert_sav_to_json c f out True m w)) = (fs w)(out \<mapsto> File t)"
    if "path_isfile w out \<and> out \<noteq> [] \<and> fs w f = Some (File data) \<and> json_text c data m = Some t"
    unfolding j
    using sav_to_json_steps_done [of "emit ?warn ?j" f data c m t out] that notdir
    by simp
  have ds: "fst (convert_json_to_sav c f out True w) = Inr ()
        \<and> fs (snd (convert_json_to_sav c f out True w)) = (fs w)(out \<mapsto> File t)"
    if "path_isfile w out \<and> out \<noteq> [] \<and> fs w f = Some (File data) \<and> sav_bytes c data = Some t"
    unfolding s
    using json_to_sav_steps_done [of "emit ?warn ?s" f data c t out] that notdir
    by simp
  from g j s quiet dj ds show ?thesis
    by blast
qed

theorem forced_overwrite_proceeds_witness:
  "fst (convert_json_to_sav toy_lib ''w.json'' ''w.sav'' True
      (world0 [(''w.json'', File [0x57, 1]), (''w.sav'', File [7])] [])) = Inr ()
   \<and> fs (snd (convert_json_to_sav toy_lib ''w.json'' ''w.sav'' True
      (world0 [(''w.json'', File [0x57, 1]), (''w.sav'', File [7])] []))) ''w.sav'' =
     Some (File [0x32, 0x57, 1])
   \<and> prompts (events (snd (convert_json_to_sav toy_lib ''w.json'' ''w.sav'' True
      (world0 [(''w.json'', File [0x57, 1]), (''w.sav'', File [7])] [])))) = []"
proof -
  let ?w = "world0 [(''w.json'', File [0x57, 1]), (''w.sav'', File [7])] []"
  have h: "path_exists ?w ''w.sav''"
    by (simp add: path_exists_def world0_def)
  have k: "path_isfile ?w ''w.sav'' \<and> ''w.sav'' \<noteq> [] \<and> fs ?w ''w.json'' = Some (File [0x57, 1])
      \<and> sav_bytes toy_lib [0x57, 1] = Some [0x32, 0x57, 1]"
    by (simp add: path_isfile_def world0_def sav_bytes_def sav_bytes_of_obj_def toy_lib_def
        save_type_def)
  note t = forced_overwrite_proceeds [OF h, where c = toy_lib and f = "''w.json''"
      and m = False and data = "[0x57, 1]" and t = "[0x32, 0x57, 1]"]
  from t have q: "prompts (events (snd (convert_json_to_sav toy_lib ''w.json'' ''w.sav'' True ?w)))
      = prompts (events ?w)"
    by blast
  from t k have d: "fst (convert_json_to_sav toy_lib ''w.json'' ''w.sav'' True ?w) = Inr ()
      \<and> fs (snd (convert_json_to_sav toy_lib ''w.json'' ''w.sav'' True ?w)) =
        (fs ?w)(''w.sav'' \<mapsto> File [0x32, 0x57, 1])"
    by blast
  have "prompts (events ?w) = []"
    by (simp add: world0_def)
  with q d show ?thesis
    by simp
qed

subsection \<open>A failing step\<close>

text \<open>
  The steps that run before the output file is opened. When decompression or parsing
  raises in \<^verbatim>\<open>convert_sav_to_json\<close>, and when parsing the text, rebuilding the
  document, serialising it or compressing it raises in \<^verbatim>\<open>convert_json_to_sav\<close> (or,
  from the rebuilding on, in \<^verbatim>\<open>convert_obj_to_sav\<close>), the whole file system is what
  it was before the call and the process ends with the exit status 1.
\<close>

lemma early_failure_writes_nothing:
  "(fs w f = Some (File data) \<and> decoding_fails c data \<longrightarrow>
      fs (snd (convert_sav_to_json c f out frc m w)) = fs w
      \<and> exit_code (fst (convert_sav_to_json c f out frc m w)) = 1)
   \<and> (fs w f = Some (File data) \<and> encoding_fails c data \<longrightarrow>
      fs (snd (convert_json_to_sav c f out frc w)) = fs w
      \<and> exit_code (fst (convert_json_to_sav c f out frc w)) = 1)
   \<and> (rebuilding_fails c obj \<longrightarrow>
      fs (snd (convert_obj_to_sav c obj out frc w)) = fs w
      \<and> exit_code (fst (convert_obj_to_sav c obj out frc w)) = 1)"
proof -
  have j: "fs (snd (convert_sav_to_json c f out frc m w)) = fs w
      \<and> exit_code (fst (convert_sav_to_json c f out frc m w)) = 1"
    if a: "fs w f = Some (File data)" "decoding_fails c data"
  proof (cases rule: convert_sav_to_json_cases
      [where c=c and f=f and out=out and frc=frc and m=m and w=w])
    case (stopped s w2 new)
    then show ?thesis by simp
  next
    case (passed w2 new)
    from a passed(2) have "fs w2 f = Some (File data)"
      by simp
    from sav_to_json_steps_decoding_fails [OF this a(2), of out m]
    obtain s where "fs (snd (sav_to_json_steps c f out m w2)) = fs w2"
      and s: "fst (sav_to_json_steps c f out m w2) = Inl s"
      by blast
    moreover from s have "exit_code (Inl s :: stop + unit) = 1"
      by (rule sav_to_json_steps_stop)
    ultimately show ?thesis
      using passed by simp
  qed
  have s: "fs (snd (convert_json_to_sav c f out frc w)) = fs w
      \<and> exit_code (fst (convert_json_to_sav c f out frc w)) = 1"
    if a: "fs w f = Some (File data)" "encoding_fails c data"
  proof (cases rule: convert_json_to_sav_cases
      [where c=c and f=f and out=out and frc=frc and w=w])
    case (stopped s w2 new)
    then show ?thesis by simp
  next
    case (passed w2 new)
    from a passed(2) have "fs w2 f = Some (File data)"
      by simp
    from json_to_sav_steps_encoding_fails [OF this a(2), of out]
    obtain s where "fs (snd (json_to_sav_steps c f out w2)) = fs w2"
      and s: "fst (json_to_sav_steps c f out w2) = Inl s"
      by blast
    moreover from s have "exit_code (Inl s :: stop + unit) = 1"
      by (rule json_to_sav_steps_stop)
    ultimately show ?thesis
      using passed by simp
  qed
  have o: "fs (snd (convert_obj_to_sav c obj out frc w)) = fs w
      \<and> exit_code (fst (convert_obj_to_sav c obj out frc w)) = 1"
    if a: "rebuilding_fails c obj"
  proof (cases rule: convert_obj_to_sav_cases
      [where c=c and obj=obj and out=out and frc=frc and w=w])
    case (stopped s w2 new)
    then show ?thesis by simp
  next
    case (passed w2 new)
    from obj_to_sav_steps_rebuilding_fails [OF a, of out w2]
    obtain s where "fs (snd (obj_to_sav_steps c obj out w2)) = fs w2"
      and s: "fst (obj_to_sav_steps c obj out w2) = Inl s"
      by blast
    moreover from s have "exit_code (Inl s :: stop + unit) = 1"
      by (rule obj_to_sav_steps_stop)
    ultimately show ?thesis
      using passed by simp
  qed
  from j s o show ?thesis
    by blast
qed

text \<open>
  The document is turned into a tree and the tree into text after the output file has
  been opened (lines 115--117). When \<^verbatim>\<open>gvas_file.dump()\<close> raises there, an output
  file that did not exist has been created, empty.
\<close>

lemma dump_failure_leaves_empty_file:
  assumes "fs w f = Some (File data)" and "decompress_sav_to_gvas c data = Inr (raw, t)"
    and "gvas_read c raw = Inr doc" and "gvas_dump c doc = Inl e"
    and "\<not> path_exists w out" and "out \<noteq> []"
  shows "fs (snd (convert_sav_to_json c f out frc m w)) out = Some (File [])
    \<and> fst (convert_sav_to_json c f out frc m w) = Inl (Raised e)"
proof -
  have "overwrite_guard out frc w' = (Inr (), w')" if "\<not> path_exists w' out" for w'
    using that by (simp add: overwrite_guard_def)
  then have "convert_sav_to_json c f out frc m w = sav_to_json_steps c f out m
      (emit (Print (''Converting '' @ f @ '' to JSON, saving to '' @ out))
        (emit (CallSavToJson f out frc m) w))"
    using assms(5) by (simp add: convert_sav_to_json_def)
  then show ?thesis
    using assms by (auto simp: step_defs path_exists_def split: step_splits)
qed

text \<open>
  C6. The claim asks that a failing step of \<^verbatim>\<open>lib\<close> leave the output file as it
  was. It holds of the steps above, and fails for the step that turns the document
  into a tree: \<^verbatim>\<open>convert_sav_to_json\<close> opens the output file at line 115 and calls
  \<^verbatim>\<open>gvas_file.dump()\<close> at line 117. Here the save file decodes, the output file
  exists with the contents \<open>[7, 7]\<close>, \<^verbatim>\<open>force\<close> is set and \<^verbatim>\<open>dump\<close> raises: the
  process ends with the exit status 1 and the output file is left empty.
\<close>

theorem dump_failure_empties_destination:
  "fs (world0 [(''a.sav'', File [0x31, 1, 2]), (''out.json'', File [7, 7])] []) ''out.json'' =
     Some (File [7, 7])
   \<and> fst (convert_sav_to_json toy_lib_dump_raises ''a.sav'' ''out.json'' True False
        (world0 [(''a.sav'', File [0x31, 1, 2]), (''out.json'', File [7, 7])] [])) =
     Inl (Raised (LibError ''cannot serialise''))
   \<and> exit_code (fst (convert_sav_to_json toy_lib_dump_raises ''a.sav'' ''out.json'' True False
        (world0 [(''a.sav'', File [0x31, 1, 2]), (''out.json'', File [7, 7])] []))) = 1
   \<and> fs (snd (convert_sav_to_json toy_lib_dump_raises ''a.sav'' ''out.json'' True False
        (world0 [(''a.sav'', File [0x31, 1, 2]), (''out.json'', File [7, 7])] []))) ''out.json'' =
     Some (File [])"
  by (simp add: run_defs toy_lib_dump_raises_def)

subsection \<open>The discriminator given to the compressor\<close>

lemma save_type_discriminator: "save_type n = discriminator (classify n)"
  by (simp add: classify_def save_type_def)

lemma obj_to_sav_steps_save_types:
  "compress_save_types (events (snd (obj_to_sav_steps c obj out w))) =
   compress_save_types (events w) @ expected_save_types c obj"
  by (auto simp: step_defs expected_save_types_def compress_save_types_append
      save_type_discriminator split: step_splits)

lemma json_to_sav_steps_save_types:
  "\<exists>sts. compress_save_types (events (snd (json_to_sav_steps c f out w))) =
      compress_save_types (events w) @ sts
    \<and> (sts = [] \<or> (\<exists>text obj. fs w f = Some (File text) \<and> json_load c text = Inr obj
          \<and> sts = expected_save_types c obj))"
proof (cases "\<exists>text obj. fs w f = Some (File text) \<and> json_load c text = Inr obj")
  case True
  then obtain content obj where t: "fs w f = Some (File content)" "json_load c content = Inr obj"
    by blast
  then have "json_to_sav_steps c f out w = obj_to_sav_steps c obj out
      (emit (ReadFile f) (emit (Print (''Loading JSON from '' @ f)) w))"
    by (simp add: json_to_sav_steps_def read_file_def Let_def)
  then have "compress_save_types (events (snd (json_to_sav_steps c f out w))) =
      compress_save_types (events w) @ expected_save_types c obj"
    by (simp add: obj_to_sav_steps_save_types compress_save_types_append)
  with t show ?thesis
    by blast
next
  case False
  then have "compress_save_types (events (snd (json_to_sav_steps c f out w))) =
      compress_save_types (events w) @ []"
    by (auto simp: json_to_sav_steps_def read_file_def Let_def compress_save_types_append
        split: step_splits)
  then show ?thesis
    by blast
qed

text \<open>
  The calls of the compressor in the trace: at most one in a run of
  \<^verbatim>\<open>convert_json_to_sav\<close> or of \<^verbatim>\<open>convert_obj_to_sav\<close>, when the document has
  been rebuilt and serialised, with the discriminator of the variant of that document.
\<close>

lemma compressor_calls_in_trace:
  "(\<exists>sts. compress_save_types (events (snd (convert_json_to_sav c f out frc w))) =
        compress_save_types (events w) @ sts
      \<and> (sts = [] \<or> (\<exists>text tree. fs w f = Some (File text) \<and> json_load c text = Inr tree
            \<and> sts = expected_save_types c tree)))
   \<and> (\<exists>sts. compress_save_types (events (snd (convert_obj_to_sav c obj out frc w))) =
        compress_save_types (events w) @ sts
      \<and> (sts = [] \<or> sts = expected_save_types c obj))
   \<and> compress_save_types (events (snd (obj_to_sav_steps c obj out w))) =
        compress_save_types (events w) @ expected_save_types c obj
   \<and> set (expected_save_types c obj) \<subseteq> {0x31, 0x32}
   \<and> (gvas_load c obj = Inr doc \<and> gvas_write c doc = Inr payload \<longrightarrow>
        expected_save_types c obj =
          [if classify (save_game_class_name c doc) = WorldOrLocal then 0x32 else 0x31])"
proof -
  have j: "\<exists>sts. compress_save_types (events (snd (convert_json_to_sav c f out frc w))) =
        compress_save_types (events w) @ sts
      \<and> (sts = [] \<or> (\<exists>text tree. fs w f = Some (File text) \<and> json_load c text = Inr tree
            \<and> sts = expected_save_types c tree))"
  proof (cases rule: convert_json_to_sav_cases
      [where c=c and f=f and out=out and frc=frc and w=w])
    case (stopped s w2 new)
    then have "compress_save_types (events (snd (convert_json_to_sav c f out frc w))) =
        compress_save_types (events w) @ []"
      by (simp add: compress_save_types_append)
    then show ?thesis
      by blast
  next
    case (passed w2 new)
    obtain sts where "compress_save_types (events (snd (json_to_sav_steps c f out w2))) =
        compress_save_types (events w2) @ sts"
      and "sts = [] \<or> (\<exists>text tree. fs w2 f = Some (File text) \<and> json_load c text = Inr tree
          \<and> sts = expected_save_types c tree)"
      using json_to_sav_steps_save_types [of c f out w2] by blast
    with passed have "compress_save_types (events (snd (convert_json_to_sav c f out frc w))) =
        compress_save_types (events w) @ sts
      \<and> (sts = [] \<or> (\<exists>text tree. fs w f = Some (File text) \<and> json_load c text = Inr tree
          \<and> sts = expected_save_types c tree))"
      by (simp add: compress_save_types_append)
    then show ?thesis
      by blast
  qed
  have o: "\<exists>sts. compress_save_types (events (snd (convert_obj_to_sav c obj out frc w))) =
        compress_save_types (events w) @ sts
      \<and> (sts = [] \<or> sts = expected_save_types c obj)"
  proof (cases rule: convert_obj_to_sav_cases
      [where c=c and obj=obj and out=out and frc=frc and w=w])
    case (stopped s w2 new)
    then have "compress_save_types (events (snd (convert_obj_to_sav c obj out frc w))) =
        compress_save_types (events w) @ []"
      by (simp add: compress_save_types_append)
    then show ?thesis
      by blast
  next
    case (passed w2 new)
    then have "compress_save_types (events (snd (convert_obj_to_sav c obj out frc w))) =
        compress_save_types (events w) @ expected_save_types c obj"
      by (simp add: obj_to_sav_steps_save_types compress_save_types_append)
    then show ?thesis
      by blast
  qed
  have b: "set (expected_save_types c obj) \<subseteq> {0x31, 0x32}"
    by (auto simp: expected_save_types_def classify_def split: sum.splits)
  have e: "expected_save_types c obj =
      [if classify (save_game_class_name c doc) = WorldOrLocal then 0x32 else 0x31]"
    if "gvas_load c obj = Inr doc \<and> gvas_write c doc = Inr payload"
    using that by (simp add: expected_save_types_def classify_def)
  from j o obj_to_sav_steps_save_types [of c obj out w] b e show ?thesis
    by blast
qed












end
